theory Spec2Isabelle
  imports Complex_Main
begin

section \<open>Resilience layer of the trading service (trading/resilience.py)\<close>

text \<open>
  A shallow embedding of \<^verbatim>\<open>src/ml-algorithm/src/trading/resilience.py\<close>: retry manager,
  circuit breaker, rate limiter, bulkhead, timeout manager and the manager that composes
  them. Conventions of the embedding:
  \<^item> Python \<^verbatim>\<open>int\<close> is \<open>int\<close>; Python \<^verbatim>\<open>float\<close> and instants (\<^verbatim>\<open>time.time()\<close>,
    \<^verbatim>\<open>datetime.now(timezone.utc)\<close>, differences in seconds) are idealised as \<open>real\<close>:
    rounding is outside the model. The two float operations of the module that raise
    when the result leaves the range of a double, \<^verbatim>\<open>float ** int\<close> and the conversion
    of an \<^verbatim>\<open>int\<close> operand, raise in the model too.
  \<^item> A raised exception is a value \<open>Exn cls msg\<close> of its class and its \<^verbatim>\<open>str\<close>; a call
    that can raise returns \<open>exn + 'a\<close> with \<open>Inl\<close> the exception. The exception that
    Python chains to one raised inside an \<^verbatim>\<open>except\<close> block (\<^verbatim>\<open>__context__\<close>) is not
    recorded.
  \<^item> Mutable objects are records that are passed in and returned updated; the objects a
    \<^verbatim>\<open>ResilienceManager\<close> registers live in an explicit heap of references.
  \<^item> A logging call is left out but for what evaluating its arguments can raise: the
    \<^verbatim>\<open>AttributeError\<close> of \<^verbatim>\<open>func.__name__\<close> for a callable without a name.
\<close>

subsection \<open>Exceptions\<close>

text \<open>
  The exception classes that occur: the builtins, \<^verbatim>\<open>asyncio.TimeoutError\<close> and
  \<^verbatim>\<open>asyncio.CancelledError\<close> (the latter derives from \<^verbatim>\<open>BaseException\<close> only), the
  four classes the module declares (lines 304-316, 441-443), and \<open>AppError n\<close> for a class
  named \<open>n\<close> that the wrapped operation raises and that derives directly from
  \<^verbatim>\<open>Exception\<close>.
\<close>

datatype exn_class =
    BaseException
  | Exception
  | CancelledError
  | AsyncTimeoutError
  | TypeError
  | ValueError
  | AttributeError
  | ArithmeticError
  | OverflowError
  | CircuitBreakerException
  | CircuitBreakerOpenException
  | CircuitBreakerTimeoutException
  | TimeoutException
  | AppError string

text \<open>
  An f-string is kept as the list of its pieces, so that a formatted number needs no
  decimal rendering: \<^verbatim>\<open>f"timed out after {timeout} seconds"\<close> is
  \<open>[Str ''timed out after '', Num timeout, Str '' seconds'']\<close>.
\<close>

datatype piece = Str string | Num real

datatype exn = Exn exn_class "piece list"

fun cls :: "exn \<Rightarrow> exn_class" where
  "cls (Exn c m) = c"

text \<open>\<^verbatim>\<open>str(e)\<close>\<close>

fun str :: "exn \<Rightarrow> piece list" where
  "str (Exn c m) = m"

text \<open>The method resolution order of each class, itself first.\<close>

fun mro :: "exn_class \<Rightarrow> exn_class list" where
  "mro BaseException = [BaseException]"
| "mro Exception = [Exception, BaseException]"
| "mro CancelledError = [CancelledError, BaseException]"
| "mro AsyncTimeoutError = [AsyncTimeoutError, Exception, BaseException]"
| "mro TypeError = [TypeError, Exception, BaseException]"
| "mro ValueError = [ValueError, Exception, BaseException]"
| "mro AttributeError = [AttributeError, Exception, BaseException]"
| "mro ArithmeticError = [ArithmeticError, Exception, BaseException]"
| "mro OverflowError = [OverflowError, ArithmeticError, Exception, BaseException]"
| "mro CircuitBreakerException = [CircuitBreakerException, Exception, BaseException]"
| "mro CircuitBreakerOpenException =
     [CircuitBreakerOpenException, CircuitBreakerException, Exception, BaseException]"
| "mro CircuitBreakerTimeoutException =
     [CircuitBreakerTimeoutException, CircuitBreakerException, Exception, BaseException]"
| "mro TimeoutException = [TimeoutException, Exception, BaseException]"
| "mro (AppError n) = [AppError n, Exception, BaseException]"

definition issubclass :: "exn_class \<Rightarrow> exn_class \<Rightarrow> bool" where
  "issubclass c d = (d \<in> set (mro c))"

definition isinstance :: "exn \<Rightarrow> exn_class \<Rightarrow> bool" where
  "isinstance e d = issubclass (cls e) d"

text \<open>\<^verbatim>\<open>except tuple(exceptions) as e\<close>: the clause catches \<open>e\<close>.\<close>

definition catches :: "exn_class list \<Rightarrow> exn \<Rightarrow> bool" where
  "catches exceptions e = (\<exists>c \<in> set exceptions. isinstance e c)"

subsection \<open>The world outside: clock, sleeping, the wrapped operation\<close>

text \<open>
  \<open>clock\<close> is what \<^verbatim>\<open>time.time()\<close> and \<^verbatim>\<open>datetime.now(timezone.utc)\<close> read.
  \<open>invocations\<close> counts how often the wrapped operation has been entered and \<open>slept\<close>
  lists the arguments of \<^verbatim>\<open>asyncio.sleep\<close> in order; both only record what happened.
\<close>

record world =
  clock :: real
  invocations :: nat
  slept :: "real list"

text \<open>
  The wrapped callable. \<open>behaviour f k\<close> is what its \<open>k\<close>-th invocation (counted from 0)
  does as seen by the caller: the value returned or the exception raised, and the time it
  took. Where the source awaits it under \<^verbatim>\<open>asyncio.wait_for\<close>, an expired deadline is the
  outcome \<open>Inl\<close> of an \<open>AsyncTimeoutError\<close>. \<open>ftype\<close> is the name of the callable's type
  and \<open>fname\<close> its attribute \<^verbatim>\<open>__name__\<close>, which a function has and a
  \<^verbatim>\<open>functools.partial\<close> or an instance with \<^verbatim>\<open>__call__\<close> has not.
\<close>

record 'a func =
  ftype :: string
  fname :: "string option"
  behaviour :: "nat \<Rightarrow> (exn + 'a) \<times> real"

definition quoted :: "string \<Rightarrow> string" where
  "quoted s = CHR 0x27 # s @ [CHR 0x27]"

text \<open>Evaluating \<^verbatim>\<open>func.__name__\<close>.\<close>

definition func_name :: "'a func \<Rightarrow> exn + string" where
  "func_name f =
     (case fname f of
        Some n \<Rightarrow> Inr n
      | None \<Rightarrow>
          Inl (Exn AttributeError
                 [Str (quoted (ftype f)), Str '' object has no attribute '',
                  Str (quoted ''__name__'')]))"

definition invoke :: "'a func \<Rightarrow> world \<Rightarrow> (exn + 'a) \<times> world" where
  "invoke f w =
     (let (r, d) = behaviour f (invocations w)
      in (r, w\<lparr>clock := clock w + d, invocations := Suc (invocations w)\<rparr>))"

text \<open>\<^verbatim>\<open>await asyncio.sleep(delay)\<close>: a delay that is not positive returns at once.\<close>

definition sleep :: "real \<Rightarrow> world \<Rightarrow> world" where
  "sleep delay w = w\<lparr>clock := clock w + max delay 0, slept := slept w @ [delay]\<rparr>"

text \<open>Time passing between two calls of the library.\<close>

definition idle :: "real \<Rightarrow> world \<Rightarrow> world" where
  "idle gap w = w\<lparr>clock := clock w + gap\<rparr>"

text \<open>
  \<^verbatim>\<open>random.uniform(a, b)\<close> is \<^verbatim>\<open>a + (b - a) * random()\<close>; \<open>u\<close> is the value that
  \<^verbatim>\<open>random()\<close> drew.
\<close>

definition uniform :: "real \<Rightarrow> real \<Rightarrow> real \<Rightarrow> real" where
  "uniform u a b = a + (b - a) * u"

subsection \<open>RetryManager (lines 29-46, 70-162)\<close>

datatype retry_strategy = FIXED | EXPONENTIAL | LINEAR | RANDOM

record retry_config =
  max_attempts :: int
  base_delay :: real
  max_delay :: real
  strategy :: retry_strategy
  jitter :: bool
  backoff_multiplier :: real

text \<open>
  The largest finite double. An exact result beyond it stands for a float result that is
  out of range.
\<close>

definition float_max :: real where
  "float_max = 2 ^ 1024 - 2 ^ 971"

text \<open>An \<^verbatim>\<open>int\<close> operand of a float operation is converted to \<^verbatim>\<open>float\<close> first.\<close>

definition float_of_int :: "int \<Rightarrow> exn + real" where
  "float_of_int i =
     (if float_max < \<bar>of_int i\<bar>
      then Inl (Exn OverflowError [Str ''int too large to convert to float''])
      else Inr (of_int i))"

text \<open>
  \<^verbatim>\<open>b ** n\<close> for a float \<open>b\<close> and an \<^verbatim>\<open>int\<close> \<open>n \<ge> 0\<close>: the exponent is converted, and a
  power out of range is the \<^verbatim>\<open>OverflowError\<close> of \<^verbatim>\<open>ERANGE\<close>.
\<close>

definition float_pow :: "real \<Rightarrow> nat \<Rightarrow> exn + real" where
  "float_pow b n =
     (case float_of_int (int n) of
        Inl e \<Rightarrow> Inl e
      | Inr _ \<Rightarrow>
          if float_max < \<bar>b ^ n\<bar>
          then Inl (Exn OverflowError [Num 34, Str ''Numerical result out of range''])
          else Inr (b ^ n))"

text \<open>
  Lines 81-93 of \<^verbatim>\<open>calculate_delay\<close>: the delay of the strategy, before jitter. It is
  reached for \<open>attempt \<ge> 1\<close> only. \<open>u\<close> is the draw of the \<^verbatim>\<open>RANDOM\<close> strategy.
\<close>

definition strategy_delay :: "retry_config \<Rightarrow> real \<Rightarrow> int \<Rightarrow> exn + real" where
  "strategy_delay config u attempt =
     (case strategy config of
        FIXED \<Rightarrow> Inr (base_delay config)
      | EXPONENTIAL \<Rightarrow>
          (case float_pow (backoff_multiplier config) (nat (attempt - 1)) of
             Inl e \<Rightarrow> Inl e
           | Inr p \<Rightarrow> Inr (base_delay config * p))
      | LINEAR \<Rightarrow>
          (case float_of_int attempt of
             Inl e \<Rightarrow> Inl e
           | Inr a \<Rightarrow> Inr (base_delay config * a))
      | RANDOM \<Rightarrow>
          (case float_of_int attempt of
             Inl e \<Rightarrow> Inl e
           | Inr a \<Rightarrow> Inr (uniform u (base_delay config) (base_delay config * a))))"

text \<open>
  \<^verbatim>\<open>calculate_delay\<close>; \<open>us\<close> holds the two draws it may consume, first the one of the
  strategy, then the one of the jitter factor.
\<close>

definition calculate_delay :: "retry_config \<Rightarrow> real \<times> real \<Rightarrow> int \<Rightarrow> exn + real" where
  "calculate_delay config us attempt =
     (if attempt \<le> 0 then Inr 0
      else
        case strategy_delay config (fst us) attempt of
          Inl e \<Rightarrow> Inl e
        | Inr delay \<Rightarrow>
            let delay = (if jitter config then delay * uniform (snd us) 0.5 1.5 else delay)
            in Inr (min delay (max_delay config)))"

text \<open>
  \<^verbatim>\<open>raise last_exception\<close> (line 162): raising \<^verbatim>\<open>None\<close> is a \<^verbatim>\<open>TypeError\<close>.
\<close>

definition raise_last :: "exn option \<Rightarrow> exn" where
  "raise_last last_exception =
     (case last_exception of
        None \<Rightarrow> Exn TypeError [Str ''exceptions must derive from BaseException'']
      | Some e \<Rightarrow> e)"

text \<open>
  Lines 152-162, after the loop: the error log reads \<^verbatim>\<open>func.__name__\<close>, then
  \<^verbatim>\<open>raise last_exception\<close>. \<open>fn_name\<close> is what evaluating \<^verbatim>\<open>func.__name__\<close> gives.
\<close>

definition after_loop :: "exn + string \<Rightarrow> exn option \<Rightarrow> exn" where
  "after_loop fn_name last_exception =
     (case fn_name of
        Inl no_name \<Rightarrow> no_name
      | Inr _ \<Rightarrow> raise_last last_exception)"

text \<open>
  Lines 118-129, the body of the \<^verbatim>\<open>try\<close>: the call, and on a success after the first
  attempt the info log, which reads \<^verbatim>\<open>func.__name__\<close>.
\<close>

definition try_body ::
  "exn + string \<Rightarrow> (world \<Rightarrow> (exn + 'a) \<times> world) \<Rightarrow> int \<Rightarrow> world \<Rightarrow> (exn + 'a) \<times> world" where
  "try_body fn_name run attempt w =
     (case run w of
        (Inr result, w') \<Rightarrow>
          if 1 < attempt then
            (case fn_name of
               Inl no_name \<Rightarrow> (Inl no_name, w')
             | Inr _ \<Rightarrow> (Inr result, w'))
          else (Inr result, w')
      | (Inl e, w') \<Rightarrow> (Inl e, w'))"

text \<open>
  The \<^verbatim>\<open>for attempt in range(1, max_attempts + 1)\<close> loop of \<^verbatim>\<open>execute_with_retry\<close>,
  entered at \<open>attempt\<close>. \<open>rnd a\<close> gives the random draws of the delay computed after
  attempt \<open>a\<close>. In the \<^verbatim>\<open>except\<close> block the warning log reads \<^verbatim>\<open>func.__name__\<close>, and
  what \<^verbatim>\<open>calculate_delay\<close> raises leaves the loop.
\<close>

function retry_loop ::
  "retry_config \<Rightarrow> exn_class list \<Rightarrow> exn + string \<Rightarrow> (world \<Rightarrow> (exn + 'a) \<times> world)
     \<Rightarrow> (int \<Rightarrow> real \<times> real) \<Rightarrow> int \<Rightarrow> exn option \<Rightarrow> world \<Rightarrow> (exn + 'a) \<times> world" where
  "retry_loop config exceptions fn_name run rnd attempt last_exception w =
     (if max_attempts config < attempt then (Inl (after_loop fn_name last_exception), w)
      else
        case try_body fn_name run attempt w of
          (Inr result, w') \<Rightarrow> (Inr result, w')
        | (Inl e, w') \<Rightarrow>
            if \<not> catches exceptions e then (Inl e, w')
            else
              case fn_name of
                Inl no_name \<Rightarrow> (Inl no_name, w')
              | Inr _ \<Rightarrow>
                  if attempt = max_attempts config
                  then (Inl (after_loop fn_name (Some e)), w')
                  else
                    case calculate_delay config (rnd attempt) attempt of
                      Inl overflow \<Rightarrow> (Inl overflow, w')
                    | Inr delay \<Rightarrow>
                        retry_loop config exceptions fn_name run rnd (attempt + 1) (Some e)
                          (sleep delay w'))"
  by pat_completeness auto
termination
  by (relation "measure (\<lambda>(config, exceptions, fn_name, run, rnd, attempt, last_exception, w).
                   nat (max_attempts config + 1 - attempt))") auto

declare retry_loop.simps [simp del]

text \<open>
  \<^verbatim>\<open>execute_with_retry\<close>. \<open>run\<close> is one awaited call of \<^verbatim>\<open>func(*args, **kwargs)\<close> and
  \<open>fn_name\<close> what \<^verbatim>\<open>func.__name__\<close> gives; \<open>exceptions = None\<close> stands for
  \<^verbatim>\<open>[Exception]\<close>.
\<close>

definition execute_with_retry ::
  "retry_config \<Rightarrow> exn + string \<Rightarrow> (world \<Rightarrow> (exn + 'a) \<times> world) \<Rightarrow> exn_class list option
     \<Rightarrow> (int \<Rightarrow> real \<times> real) \<Rightarrow> world \<Rightarrow> (exn + 'a) \<times> world" where
  "execute_with_retry config fn_name run exceptions rnd w =
     (let exceptions = (case exceptions of None \<Rightarrow> [Exception] | Some cs \<Rightarrow> cs)
      in retry_loop config exceptions fn_name run rnd 1 None w)"

subsection \<open>CircuitBreaker (lines 22-26, 48-67, 165-316)\<close>

datatype circuit_state = CLOSED | OPEN | HALF_OPEN

record circuit_breaker_config =
  failure_threshold :: int
  recovery_timeout :: real
  success_threshold :: int
  timeout :: real

record circuit_breaker =
  name :: string
  config :: circuit_breaker_config
  state :: circuit_state
  failure_count :: int
  success_count :: int
  last_failure_time :: "real option"
  last_success_time :: "real option"
  total_requests :: int
  total_failures :: int
  total_successes :: int

text \<open>\<^verbatim>\<open>CircuitBreaker.__init__\<close>\<close>

definition CircuitBreaker_init :: "string \<Rightarrow> circuit_breaker_config \<Rightarrow> circuit_breaker" where
  "CircuitBreaker_init nm cfg =
     \<lparr>name = nm, config = cfg, state = CLOSED, failure_count = 0, success_count = 0,
      last_failure_time = None, last_success_time = None,
      total_requests = 0, total_failures = 0, total_successes = 0\<rparr>"

definition should_attempt_reset :: "circuit_breaker \<Rightarrow> world \<Rightarrow> bool" where
  "should_attempt_reset cb w =
     (if state cb \<noteq> OPEN then False
      else
        case last_failure_time cb of
          None \<Rightarrow> True
        | Some t \<Rightarrow> recovery_timeout (config cb) \<le> clock w - t)"

definition record_success :: "circuit_breaker \<Rightarrow> world \<Rightarrow> circuit_breaker" where
  "record_success cb w =
     (let cb = cb\<lparr>total_requests := total_requests cb + 1,
                  total_successes := total_successes cb + 1,
                  last_success_time := Some (clock w)\<rparr>
      in
        if state cb = HALF_OPEN then
          let cb = cb\<lparr>success_count := success_count cb + 1\<rparr>
          in
            if success_threshold (config cb) \<le> success_count cb
            then cb\<lparr>state := CLOSED, failure_count := 0, success_count := 0\<rparr>
            else cb
        else cb\<lparr>failure_count := 0\<rparr>)"

definition record_failure :: "circuit_breaker \<Rightarrow> world \<Rightarrow> circuit_breaker" where
  "record_failure cb w =
     (let cb = cb\<lparr>total_requests := total_requests cb + 1,
                  total_failures := total_failures cb + 1,
                  last_failure_time := Some (clock w)\<rparr>
      in
        if state cb = HALF_OPEN then cb\<lparr>state := OPEN, success_count := 0\<rparr>
        else
          let cb = cb\<lparr>failure_count := failure_count cb + 1\<rparr>
          in
            if failure_threshold (config cb) \<le> failure_count cb
            then cb\<lparr>state := OPEN\<rparr>
            else cb)"

text \<open>
  Lines 265-277 of \<^verbatim>\<open>call\<close>, the check made before the function is executed: either
  the open-circuit exception, or the breaker with which the function is then executed.
\<close>

definition check_open :: "circuit_breaker \<Rightarrow> world \<Rightarrow> exn + circuit_breaker" where
  "check_open cb w =
     (if state cb = OPEN then
        if \<not> should_attempt_reset cb w
        then Inl (Exn CircuitBreakerOpenException
                    [Str ''Circuit breaker '', Str (name cb), Str '' is open''])
        else Inr (cb\<lparr>state := HALF_OPEN, success_count := 0\<rparr>)
      else Inr cb)"

text \<open>
  Lines 279-301 of \<^verbatim>\<open>call\<close>, the function executed and its outcome recorded. Both
  ways of executing it (awaited under \<^verbatim>\<open>wait_for\<close>, or called directly) are one
  \<open>invoke\<close>; the deadline \<open>timeout (config cb)\<close> of \<^verbatim>\<open>wait_for\<close> shows only in that
  an invocation can end in an \<open>AsyncTimeoutError\<close>. An exception that is not an
  \<^verbatim>\<open>Exception\<close> passes both \<^verbatim>\<open>except\<close> clauses and nothing is recorded.
\<close>

definition execute_function ::
  "circuit_breaker \<Rightarrow> 'a func \<Rightarrow> world \<Rightarrow> (exn + 'a) \<times> circuit_breaker \<times> world" where
  "execute_function cb f w =
     (case invoke f w of
        (Inr result, w') \<Rightarrow> (Inr result, record_success cb w', w')
      | (Inl e, w') \<Rightarrow>
          if isinstance e AsyncTimeoutError then
            (Inl (Exn CircuitBreakerTimeoutException
                    [Str ''Circuit breaker '', Str (name cb), Str '' timeout'']),
             record_failure cb w', w')
          else if isinstance e Exception then
            (Inl (Exn CircuitBreakerException
                    ([Str ''Circuit breaker '', Str (name cb), Str '' failure: ''] @ str e)),
             record_failure cb w', w')
          else (Inl e, cb, w'))"

text \<open>\<^verbatim>\<open>call\<close>: a rejected call leaves the breaker and the world as they were.\<close>

definition call ::
  "circuit_breaker \<Rightarrow> 'a func \<Rightarrow> world \<Rightarrow> (exn + 'a) \<times> circuit_breaker \<times> world" where
  "call cb f w =
     (case check_open cb w of
        Inl rejected \<Rightarrow> (Inl rejected, cb, w)
      | Inr cb \<Rightarrow> execute_function cb f w)"

text \<open>
  A caller that makes one call after the other on the same breaker; \<open>gap\<close> is the time
  that passes before each call. The results are listed in order.
\<close>

fun calls ::
  "circuit_breaker \<Rightarrow> 'a func \<Rightarrow> real list \<Rightarrow> world
     \<Rightarrow> (exn + 'a) list \<times> circuit_breaker \<times> world" where
  "calls cb f [] w = ([], cb, w)"
| "calls cb f (gap # gaps) w =
     (case call cb f (idle gap w) of
        (res, cb', w') \<Rightarrow>
          (case calls cb' f gaps w' of (rs, cb'', w'') \<Rightarrow> (res # rs, cb'', w'')))"

subsection \<open>RateLimiter (lines 319-355)\<close>

record rate_limiter =
  max_requests :: int
  time_window :: real
  requests :: "real list"

definition RateLimiter_init :: "int \<Rightarrow> real \<Rightarrow> rate_limiter" where
  "RateLimiter_init n tw = \<lparr>max_requests = n, time_window = tw, requests = []\<rparr>"

text \<open>
  The loop \<^verbatim>\<open>while self.requests and self.requests[0] <= now - self.time_window:
  self.requests.popleft()\<close>, with \<open>bound\<close> for \<^verbatim>\<open>now - self.time_window\<close>.
\<close>

fun remove_old :: "real \<Rightarrow> real list \<Rightarrow> real list" where
  "remove_old bound [] = []"
| "remove_old bound (r # rs) = (if r \<le> bound then remove_old bound rs else r # rs)"

definition acquire :: "rate_limiter \<Rightarrow> world \<Rightarrow> bool \<times> rate_limiter" where
  "acquire rl w =
     (let now = clock w;
          rl = rl\<lparr>requests := remove_old (now - time_window rl) (requests rl)\<rparr>
      in
        if int (length (requests rl)) < max_requests rl
        then (True, rl\<lparr>requests := requests rl @ [now]\<rparr>)
        else (False, rl))"

text \<open>
  A caller that calls \<^verbatim>\<open>acquire\<close> again and again; \<open>gap\<close> is the time that passes
  before each call. The log lists, per call, what it returned and when it was made.
\<close>

fun acquires ::
  "rate_limiter \<Rightarrow> real list \<Rightarrow> world \<Rightarrow> (bool \<times> real) list \<times> rate_limiter \<times> world" where
  "acquires rl [] w = ([], rl, w)"
| "acquires rl (gap # gaps) w =
     (case acquire rl (idle gap w) of
        (ok, rl') \<Rightarrow>
          (case acquires rl' gaps (idle gap w) of
             (entries, rl'', w'') \<Rightarrow> ((ok, clock (idle gap w)) # entries, rl'', w'')))"

text \<open>The instants of a log at which a permit was granted.\<close>

definition granted :: "(bool \<times> real) list \<Rightarrow> real list" where
  "granted entries = map snd (filter fst entries)"

text \<open>
  \<^verbatim>\<open>wait_for_permit\<close> polls until a permit is granted; \<open>None\<close> is the loop that never
  ends.
\<close>

partial_function (option) wait_for_permit ::
  "rate_limiter \<Rightarrow> world \<Rightarrow> (rate_limiter \<times> world) option" where
  "wait_for_permit rl w =
     (if fst (acquire rl w) then Some (snd (acquire rl w), w)
      else wait_for_permit (snd (acquire rl w)) (sleep 0.1 w))"

declare wait_for_permit.simps [code]

subsection \<open>Bulkhead (lines 358-396)\<close>

text \<open>\<open>semaphore\<close> is the number of free permits of the \<^verbatim>\<open>asyncio.Semaphore\<close>.\<close>

record bulkhead =
  bh_name :: string
  max_concurrent :: int
  semaphore :: int
  active_operations :: int

text \<open>
  \<^verbatim>\<open>Bulkhead.__init__\<close>; \<^verbatim>\<open>asyncio.Semaphore\<close> refuses a negative initial value.
\<close>

definition Bulkhead_init :: "string \<Rightarrow> int \<Rightarrow> exn + bulkhead" where
  "Bulkhead_init nm n =
     (if n < 0 then Inl (Exn ValueError [Str ''Semaphore initial value must be >= 0''])
      else Inr \<lparr>bh_name = nm, max_concurrent = n, semaphore = n, active_operations = 0\<rparr>)"

text \<open>
  Entering and leaving \<^verbatim>\<open>async with bulkhead.acquire()\<close>, for one caller at a time:
  with no free permit the caller waits for a release that nobody makes (\<open>None\<close>).
\<close>

definition bulkhead_enter :: "bulkhead \<Rightarrow> bulkhead option" where
  "bulkhead_enter bh =
     (if semaphore bh \<le> 0 then None
      else Some (bh\<lparr>semaphore := semaphore bh - 1,
                     active_operations := active_operations bh + 1\<rparr>))"

definition bulkhead_exit :: "bulkhead \<Rightarrow> bulkhead" where
  "bulkhead_exit bh =
     bh\<lparr>active_operations := active_operations bh - 1, semaphore := semaphore bh + 1\<rparr>"

subsection \<open>TimeoutManager (lines 399-443)\<close>

text \<open>
  \<^verbatim>\<open>execute_with_timeout\<close>; \<open>default_timeout\<close> is the field of the manager. A timeout
  of \<^verbatim>\<open>None\<close> or \<^verbatim>\<open>0\<close> is falsy and replaced by the default. The error log and
  the message of the \<^verbatim>\<open>TimeoutException\<close> read \<^verbatim>\<open>func.__name__\<close>.
\<close>

definition execute_with_timeout ::
  "real \<Rightarrow> 'a func \<Rightarrow> real option \<Rightarrow> world \<Rightarrow> (exn + 'a) \<times> world" where
  "execute_with_timeout default_timeout f tmo w =
     (let tmo = (case tmo of None \<Rightarrow> default_timeout
                 | Some t \<Rightarrow> if t = 0 then default_timeout else t)
      in
        case invoke f w of
          (Inr result, w') \<Rightarrow> (Inr result, w')
        | (Inl e, w') \<Rightarrow>
            if isinstance e AsyncTimeoutError then
              (case func_name f of
                 Inl no_name \<Rightarrow> (Inl no_name, w')
               | Inr n \<Rightarrow>
                   (Inl (Exn TimeoutException
                           [Str ''Function '', Str n, Str '' timed out after '', Num tmo,
                            Str '' seconds'']),
                    w'))
            else (Inl e, w'))"

subsection \<open>ResilienceManager (lines 446-590)\<close>

text \<open>
  Objects are referred to by reference. \<open>allocated\<close> is the number of primitives
  constructed so far and the next fresh reference; the three stores give the current
  value of the object behind a reference.
\<close>

type_synonym ref = nat

record heap =
  allocated :: nat
  breaker_at :: "ref \<Rightarrow> circuit_breaker"
  limiter_at :: "ref \<Rightarrow> rate_limiter"
  bulkhead_at :: "ref \<Rightarrow> bulkhead"

text \<open>The three dictionaries, and the default timeout of \<^verbatim>\<open>self.timeout_manager\<close>.\<close>

record resilience_manager =
  circuit_breakers :: "string \<rightharpoonup> ref"
  rate_limiters :: "string \<rightharpoonup> ref"
  bulkheads :: "string \<rightharpoonup> ref"
  timeout_manager :: real

definition ResilienceManager_init :: resilience_manager where
  "ResilienceManager_init =
     \<lparr>circuit_breakers = Map.empty, rate_limiters = Map.empty, bulkheads = Map.empty,
      timeout_manager = 30\<rparr>"

text \<open>
  The heap before anything is constructed. What a store holds at a reference that is not
  allocated is never read.
\<close>

definition heap_init :: heap where
  "heap_init =
     \<lparr>allocated = 0,
      breaker_at =
        (\<lambda>r. CircuitBreaker_init []
               \<lparr>failure_threshold = 0, recovery_timeout = 0, success_threshold = 0,
                timeout = 0\<rparr>),
      limiter_at = (\<lambda>r. RateLimiter_init 0 0),
      bulkhead_at =
        (\<lambda>r. \<lparr>bh_name = [], max_concurrent = 0, semaphore = 0, active_operations = 0\<rparr>)\<rparr>"

definition create_circuit_breaker ::
  "string \<Rightarrow> circuit_breaker_config \<Rightarrow> resilience_manager \<times> heap
     \<Rightarrow> ref \<times> resilience_manager \<times> heap" where
  "create_circuit_breaker nm cfg mh =
     (let (m, h) = mh; r = allocated h
      in (r,
          m\<lparr>circuit_breakers := (circuit_breakers m)(nm \<mapsto> r)\<rparr>,
          h\<lparr>allocated := Suc r, breaker_at := (breaker_at h)(r := CircuitBreaker_init nm cfg)\<rparr>))"

definition create_rate_limiter ::
  "string \<Rightarrow> int \<Rightarrow> real \<Rightarrow> resilience_manager \<times> heap \<Rightarrow> ref \<times> resilience_manager \<times> heap" where
  "create_rate_limiter nm n tw mh =
     (let (m, h) = mh; r = allocated h
      in (r,
          m\<lparr>rate_limiters := (rate_limiters m)(nm \<mapsto> r)\<rparr>,
          h\<lparr>allocated := Suc r, limiter_at := (limiter_at h)(r := RateLimiter_init n tw)\<rparr>))"

definition create_bulkhead ::
  "string \<Rightarrow> int \<Rightarrow> resilience_manager \<times> heap \<Rightarrow> exn + ref \<times> resilience_manager \<times> heap" where
  "create_bulkhead nm n mh =
     (let (m, h) = mh; r = allocated h
      in case Bulkhead_init nm n of
           Inl e \<Rightarrow> Inl e
         | Inr bh \<Rightarrow>
             Inr (r,
                  m\<lparr>bulkheads := (bulkheads m)(nm \<mapsto> r)\<rparr>,
                  h\<lparr>allocated := Suc r, bulkhead_at := (bulkhead_at h)(r := bh)\<rparr>))"

definition get_circuit_breaker :: "resilience_manager \<Rightarrow> string \<Rightarrow> ref option" where
  "get_circuit_breaker m nm = circuit_breakers m nm"

definition get_rate_limiter :: "resilience_manager \<Rightarrow> string \<Rightarrow> ref option" where
  "get_rate_limiter m nm = rate_limiters m nm"

definition get_bulkhead :: "resilience_manager \<Rightarrow> string \<Rightarrow> ref option" where
  "get_bulkhead m nm = bulkheads m nm"

text \<open>
  \<^verbatim>\<open>if name: x = self.get(name); if x: ...\<close>: a name that is \<^verbatim>\<open>None\<close> or empty is
  falsy, and so is a name that is not registered.
\<close>

definition registered :: "(string \<Rightarrow> ref option) \<Rightarrow> string option \<Rightarrow> ref option" where
  "registered get nm =
     (case nm of None \<Rightarrow> None | Some n \<Rightarrow> if n = [] then None else get n)"

text \<open>
  \<^verbatim>\<open>_execute_with_circuit_breaker_and_retry\<close>. What is retried is the bound method
  \<^verbatim>\<open>self.timeout_manager.execute_with_timeout\<close>, which has a name.
\<close>

definition execute_with_circuit_breaker_and_retry ::
  "resilience_manager \<Rightarrow> 'a func \<Rightarrow> string option \<Rightarrow> real option \<Rightarrow> retry_config option
     \<Rightarrow> (int \<Rightarrow> real \<times> real) \<Rightarrow> heap \<times> world \<Rightarrow> (exn + 'a) \<times> heap \<times> world" where
  "execute_with_circuit_breaker_and_retry m f circuit_breaker_name tmo retry_cfg rnd hw =
     (let (h, w) = hw
      in case registered (get_circuit_breaker m) circuit_breaker_name of
           Some r \<Rightarrow>
             (let (res, cb, w') = call (breaker_at h r) f w
              in (res, h\<lparr>breaker_at := (breaker_at h)(r := cb)\<rparr>, w'))
         | None \<Rightarrow>
             (case retry_cfg of
                Some rc \<Rightarrow>
                  (let (res, w') =
                         execute_with_retry rc (Inr ''execute_with_timeout'')
                           (execute_with_timeout (timeout_manager m) f tmo) None rnd w
                   in (res, h, w'))
              | None \<Rightarrow>
                  (let (res, w') = execute_with_timeout (timeout_manager m) f tmo w
                   in (res, h, w'))))"

text \<open>
  \<^verbatim>\<open>execute_with_resilience\<close>; \<open>None\<close> when the wait for a rate-limit permit or for a
  bulkhead permit never ends. The \<^verbatim>\<open>except Exception\<close> clause logs and re-raises.
\<close>

definition execute_with_resilience ::
  "resilience_manager \<Rightarrow> 'a func \<Rightarrow> string option \<Rightarrow> string option \<Rightarrow> string option
     \<Rightarrow> real option \<Rightarrow> retry_config option \<Rightarrow> (int \<Rightarrow> real \<times> real) \<Rightarrow> heap \<times> world
     \<Rightarrow> ((exn + 'a) \<times> heap \<times> world) option" where
  "execute_with_resilience m f circuit_breaker_name rate_limiter_name bulkhead_name tmo
       retry_cfg rnd hw =
     (let (h, w) = hw
      in
        case (case registered (get_rate_limiter m) rate_limiter_name of
                None \<Rightarrow> Some (h, w)
              | Some r \<Rightarrow>
                  (case wait_for_permit (limiter_at h r) w of
                     None \<Rightarrow> None
                   | Some (rl, w') \<Rightarrow> Some (h\<lparr>limiter_at := (limiter_at h)(r := rl)\<rparr>, w')))
        of
          None \<Rightarrow> None
        | Some (h, w) \<Rightarrow>
            (case registered (get_bulkhead m) bulkhead_name of
               None \<Rightarrow>
                 Some (execute_with_circuit_breaker_and_retry m f circuit_breaker_name tmo
                         retry_cfg rnd (h, w))
             | Some r \<Rightarrow>
                 (case bulkhead_enter (bulkhead_at h r) of
                    None \<Rightarrow> None
                  | Some bh \<Rightarrow>
                      (let (res, h, w) =
                             execute_with_circuit_breaker_and_retry m f circuit_breaker_name
                               tmo retry_cfg rnd
                               (h\<lparr>bulkhead_at := (bulkhead_at h)(r := bh)\<rparr>, w)
                       in Some (res,
                                h\<lparr>bulkhead_at :=
                                     (bulkhead_at h)(r := bulkhead_exit (bulkhead_at h r))\<rparr>,
                                w)))))"

section \<open>Concrete inputs\<close>

text \<open>The inputs at which the properties below are instantiated and evaluated.\<close>

definition world0 :: world where
  "world0 = \<lparr>clock = 0, invocations = 0, slept = []\<rparr>"

text \<open>An operation that takes one second and raises on every invocation.\<close>

definition always_failing :: "nat func" where
  "always_failing =
     \<lparr>ftype = ''function'', fname = Some ''fetch'',
      behaviour =
        (\<lambda>k. (Inl (Exn (AppError ''BrokerUnavailable'') [Str ''down '', Num (real k)]), 1))\<rparr>"

text \<open>The defaults of \<^verbatim>\<open>RetryConfig\<close>.\<close>

definition three_attempts :: retry_config where
  "three_attempts =
     \<lparr>max_attempts = 3, base_delay = 1, max_delay = 60, strategy = EXPONENTIAL,
      jitter = True, backoff_multiplier = 2\<rparr>"

text \<open>Six attempts with the multiplier \<^verbatim>\<open>1e100\<close>.\<close>

definition steep_backoff :: retry_config where
  "steep_backoff =
     \<lparr>max_attempts = 6, base_delay = 1, max_delay = 60, strategy = EXPONENTIAL,
      jitter = True, backoff_multiplier = 10 ^ 100\<rparr>"

text \<open>
  The always failing operation wrapped in a \<^verbatim>\<open>functools.partial\<close>, which has no
  \<^verbatim>\<open>__name__\<close>.
\<close>

definition nameless_failing :: "nat func" where
  "nameless_failing = always_failing\<lparr>ftype := ''functools.partial'', fname := None\<rparr>"

definition negative_cap :: retry_config where
  "negative_cap =
     \<lparr>max_attempts = 3, base_delay = 5, max_delay = - 1, strategy = LINEAR,
      jitter = True, backoff_multiplier = 2\<rparr>"

text \<open>
  The breaker of the specification's end-to-end scenario: three failures open it, it
  recovers after one second, two successes close it again.
\<close>

definition scenario_config :: circuit_breaker_config where
  "scenario_config =
     \<lparr>failure_threshold = 3, recovery_timeout = 1, success_threshold = 2, timeout = 30\<rparr>"

definition fresh :: circuit_breaker where
  "fresh = CircuitBreaker_init ''broker'' scenario_config"

text \<open>The same breaker and the world after three failed calls in a row.\<close>

definition tripped :: circuit_breaker where
  "tripped = fst (snd (calls fresh always_failing [0, 0, 0] world0))"

definition after_trip :: world where
  "after_trip = snd (snd (calls fresh always_failing [0, 0, 0] world0))"

text \<open>A limiter of two requests per ten seconds.\<close>

definition two_per_ten :: rate_limiter where
  "two_per_ten = RateLimiter_init 2 10"

text \<open>
  A new manager in which the breaker of the scenario is created under the name
  \<^verbatim>\<open>broker\<close>, once and then a second time.
\<close>

definition once :: "ref \<times> resilience_manager \<times> heap" where
  "once = create_circuit_breaker ''broker'' scenario_config (ResilienceManager_init, heap_init)"

definition twice :: "ref \<times> resilience_manager \<times> heap" where
  "twice = create_circuit_breaker ''broker'' scenario_config (snd once)"

text \<open>An operation that fails with a transient error when first invoked and succeeds then.\<close>

definition flaky :: "nat func" where
  "flaky =
     \<lparr>ftype = ''function'', fname = Some ''quote'',
      behaviour =
        (\<lambda>k. if k = 0 then (Inl (Exn (AppError ''BrokerUnavailable'') [Str ''reset'']), 1)
             else (Inr 42, 1))\<rparr>"

section \<open>Retry manager\<close>

lemma invoke_raises:
  "behaviour f (invocations w) = (Inl e, d) \<Longrightarrow>
   invoke f w = (Inl e, w\<lparr>clock := clock w + d, invocations := Suc (invocations w)\<rparr>)"
  by (simp add: invoke_def)

text \<open>
  One turn of the retry loop: the call returns; it is retried; it was the last attempt;
  computing the delay raises; reading the name of the callable raises.
\<close>

lemma retry_loop_returns:
  "attempt \<le> max_attempts rc \<Longrightarrow> run w = (Inr v, w') \<Longrightarrow>
   retry_loop rc excs (Inr nm) run rnd attempt lst w = (Inr v, w')"
  by (subst retry_loop.simps) (simp add: try_body_def)

lemma retry_loop_retries:
  "attempt < max_attempts rc \<Longrightarrow> run w = (Inl e, w') \<Longrightarrow> catches excs e \<Longrightarrow>
   calculate_delay rc (rnd attempt) attempt = Inr delay \<Longrightarrow>
   retry_loop rc excs (Inr nm) run rnd attempt lst w =
     retry_loop rc excs (Inr nm) run rnd (attempt + 1) (Some e) (sleep delay w')"
  by (subst retry_loop.simps) (simp add: try_body_def)

lemma retry_loop_last:
  "attempt = max_attempts rc \<Longrightarrow> run w = (Inl e, w') \<Longrightarrow> catches excs e \<Longrightarrow>
   retry_loop rc excs (Inr nm) run rnd attempt lst w = (Inl e, w')"
  by (subst retry_loop.simps) (simp add: try_body_def after_loop_def raise_last_def)

lemma retry_loop_delay_raises:
  "attempt < max_attempts rc \<Longrightarrow> run w = (Inl e, w') \<Longrightarrow> catches excs e \<Longrightarrow>
   calculate_delay rc (rnd attempt) attempt = Inl overflow \<Longrightarrow>
   retry_loop rc excs (Inr nm) run rnd attempt lst w = (Inl overflow, w')"
  by (subst retry_loop.simps) (simp add: try_body_def)

lemma retry_loop_name_raises:
  "attempt \<le> max_attempts rc \<Longrightarrow> run w = (Inl e, w') \<Longrightarrow> catches excs e \<Longrightarrow>
   retry_loop rc excs (Inl no_name) run rnd attempt lst w = (Inl no_name, w')"
  by (subst retry_loop.simps) (simp add: try_body_def)

text \<open>
  While every invocation raises an exception the \<^verbatim>\<open>except\<close> clause catches and every
  delay up to attempt \<open>stop\<close> can be computed, the loop entered at \<open>attempt\<close> arrives at
  attempt \<open>stop\<close> after one invocation and one sleep per attempt.
\<close>

lemma retry_loop_failing_prefix:
  assumes fails: "\<forall>k. \<exists>e d. behaviour f k = (Inl e, d) \<and> catches excs e"
    and delays: "\<forall>a. 1 \<le> a \<and> a < stop \<longrightarrow> (\<exists>d. calculate_delay rc (rnd a) a = Inr d)"
    and stop: "stop \<le> max_attempts rc"
  shows "n = nat (stop - attempt) \<Longrightarrow> 1 \<le> attempt \<Longrightarrow> attempt \<le> stop \<Longrightarrow>
    \<exists>lst' w'. retry_loop rc excs (Inr nm) (invoke f) rnd attempt lst w
                 = retry_loop rc excs (Inr nm) (invoke f) rnd stop lst' w'
       \<and> invocations w' = invocations w + n
       \<and> length (slept w') = length (slept w) + n"
proof (induction n arbitrary: attempt lst w)
  case 0
  then have "attempt = stop" by simp
  then show ?case by auto
next
  case (Suc n)
  then have lt: "attempt < stop" and n: "n = nat (stop - (attempt + 1))"
    and le: "attempt + 1 \<le> stop" and one: "1 \<le> attempt + 1" by auto
  from fails obtain e d where b: "behaviour f (invocations w) = (Inl e, d)" "catches excs e"
    by blast
  from delays Suc.prems(2) lt obtain delay where
    dl: "calculate_delay rc (rnd attempt) attempt = Inr delay" by blast
  let ?w1 = "w\<lparr>clock := clock w + d, invocations := Suc (invocations w)\<rparr>"
  have step: "retry_loop rc excs (Inr nm) (invoke f) rnd attempt lst w
      = retry_loop rc excs (Inr nm) (invoke f) rnd (attempt + 1) (Some e) (sleep delay ?w1)"
    using lt stop
    by (intro retry_loop_retries [where run = "invoke f" and w = w]
          invoke_raises [OF b(1)] b(2) dl) simp
  from Suc.IH [OF n one le, of "Some e" "sleep delay ?w1"] obtain lst' w' where
    r: "retry_loop rc excs (Inr nm) (invoke f) rnd (attempt + 1) (Some e) (sleep delay ?w1)
          = retry_loop rc excs (Inr nm) (invoke f) rnd stop lst' w'"
    and i: "invocations w' = invocations (sleep delay ?w1) + n"
    and l: "length (slept w') = length (slept (sleep delay ?w1)) + n"
    by blast
  from step r i l show ?case by (auto simp: sleep_def)
qed

text \<open>
  What holds of \<^verbatim>\<open>execute_with_retry\<close> for a callable with a name while every delay
  can be computed: with \<open>max_attempts = N \<ge> 1\<close> and an operation of which every
  invocation raises a caught exception, the operation is invoked exactly \<open>N\<close> times, the
  exception of the \<open>N\<close>-th invocation is raised, and the manager sleeps \<open>N - 1\<close> times.
\<close>

lemma retry_exhaustion_while_delays_computed:
  assumes "1 \<le> max_attempts rc"
    and "\<forall>k. \<exists>e d. behaviour f k = (Inl e, d)
            \<and> catches (case exceptions of None \<Rightarrow> [Exception] | Some cs \<Rightarrow> cs) e"
    and "\<forall>a. 1 \<le> a \<and> a < max_attempts rc \<longrightarrow> (\<exists>d. calculate_delay rc (rnd a) a = Inr d)"
  shows "fst (execute_with_retry rc (Inr nm) (invoke f) exceptions rnd w)
           = fst (behaviour f (invocations w + nat (max_attempts rc) - 1))
       \<and> invocations (snd (execute_with_retry rc (Inr nm) (invoke f) exceptions rnd w))
           = invocations w + nat (max_attempts rc)
       \<and> length (slept (snd (execute_with_retry rc (Inr nm) (invoke f) exceptions rnd w)))
           = length (slept w) + nat (max_attempts rc) - 1"
proof -
  let ?excs = "case exceptions of None \<Rightarrow> [Exception] | Some cs \<Rightarrow> cs"
  let ?n = "nat (max_attempts rc - 1)"
  from retry_loop_failing_prefix [OF assms(2) assms(3) order_refl refl order_refl assms(1),
      of nm None w]
  obtain lst' w' where
    r: "retry_loop rc ?excs (Inr nm) (invoke f) rnd 1 None w
          = retry_loop rc ?excs (Inr nm) (invoke f) rnd (max_attempts rc) lst' w'"
    and i: "invocations w' = invocations w + ?n"
    and l: "length (slept w') = length (slept w) + ?n"
    by blast
  from assms(2) obtain e d where b: "behaviour f (invocations w') = (Inl e, d)"
    "catches ?excs e" by blast
  have "retry_loop rc ?excs (Inr nm) (invoke f) rnd (max_attempts rc) lst' w'
      = (Inl e, w'\<lparr>clock := clock w' + d, invocations := Suc (invocations w')\<rparr>)"
    by (intro retry_loop_last [where run = "invoke f" and w = w'] refl
          invoke_raises [OF b(1)] b(2))
  with r have "execute_with_retry rc (Inr nm) (invoke f) exceptions rnd w
      = (Inl e, w'\<lparr>clock := clock w' + d, invocations := Suc (invocations w')\<rparr>)"
    by (simp add: execute_with_retry_def)
  moreover have "invocations w + nat (max_attempts rc) - 1 = invocations w'"
    "Suc (invocations w') = invocations w + nat (max_attempts rc)"
    "length (slept w') = length (slept w) + nat (max_attempts rc) - 1"
    using i l assms(1) by simp_all
  ultimately show ?thesis using b(1) by simp
qed

text \<open>The range of a double, and the delays of \<open>steep_backoff\<close> against it.\<close>

lemma float_max_bounds:
  "1 \<le> float_max" "10 ^ 300 \<le> float_max" "float_max < 10 ^ 400"
  "2 ^ 1023 \<le> float_max" "float_max < 2 ^ 1024"
  by (simp_all add: float_max_def)

lemma float_max_small:
  "\<not> float_max < 1" "\<not> float_max < 2" "\<not> float_max < 3" "\<not> float_max < 4"
  "\<not> float_max < 1023" "\<not> float_max < 1024"
  by (simp_all add: float_max_def)

lemma always_failing_fails:
  "\<forall>k. \<exists>e d. behaviour always_failing k = (Inl e, d) \<and> catches [Exception] e"
  by (simp add: always_failing_def catches_def isinstance_def issubclass_def)

lemma steep_backoff_delays:
  "\<forall>a. 1 \<le> a \<and> a < 5 \<longrightarrow> (\<exists>d. calculate_delay steep_backoff (0, 1/2) a = Inr d)"
proof (intro allI impI)
  fix a :: int assume "1 \<le> a \<and> a < 5"
  then consider "a = 1" | "a = 2" | "a = 3" | "a = 4" by fastforce
  then show "\<exists>d. calculate_delay steep_backoff (0, 1/2) a = Inr d"
  proof cases
    case 1
    then show ?thesis
      using float_max_bounds(1)
      by (simp add: calculate_delay_def strategy_delay_def float_pow_def float_of_int_def
            steep_backoff_def)
  next
    case 2
    have "(10::real) ^ 100 \<le> 10 ^ 300" by simp
    with float_max_bounds(2) have "\<not> float_max < 10 ^ 100" by linarith
    with 2 float_max_small show ?thesis
      by (simp add: calculate_delay_def strategy_delay_def float_pow_def float_of_int_def
            steep_backoff_def)
  next
    case 3
    have "((10::real) ^ 100) ^ 2 \<le> 10 ^ 300" by simp
    with float_max_bounds(2) have "\<not> float_max < (10 ^ 100) ^ 2" by linarith
    with 3 float_max_small show ?thesis
      by (simp add: calculate_delay_def strategy_delay_def float_pow_def float_of_int_def
            steep_backoff_def)
  next
    case 4
    have "((10::real) ^ 100) ^ 3 \<le> 10 ^ 300" by simp
    with float_max_bounds(2) have "\<not> float_max < (10 ^ 100) ^ 3" by linarith
    with 4 float_max_small show ?thesis
      by (simp add: calculate_delay_def strategy_delay_def float_pow_def float_of_int_def
            steep_backoff_def)
  qed
qed

lemma steep_backoff_overflows:
  "calculate_delay steep_backoff (0, 1/2) 5
     = Inl (Exn OverflowError [Num 34, Str ''Numerical result out of range''])"
proof -
  have "((10::real) ^ 100) ^ 4 = 10 ^ 400" by simp
  with float_max_bounds(3) have "float_max < (10 ^ 100) ^ 4" by linarith
  with float_max_small show ?thesis
    by (simp add: calculate_delay_def strategy_delay_def float_pow_def float_of_int_def
          steep_backoff_def)
qed

text \<open>
  C7 fails on the code, in two ways. With six attempts and the multiplier \<^verbatim>\<open>1e100\<close>,
  the delay after the fifth failure is \<^verbatim>\<open>1e100 ** 4\<close>, which is out of range:
  \<^verbatim>\<open>calculate_delay\<close> raises \<^verbatim>\<open>OverflowError\<close> inside the \<^verbatim>\<open>except\<close> block, so the
  operation is invoked five times, not six, and what is raised is not the error of an
  attempt. With three attempts and an operation that has no \<^verbatim>\<open>__name__\<close>, the warning
  log of the first failure raises \<^verbatim>\<open>AttributeError\<close>: the operation is invoked once.
\<close>

theorem retry_stops_short_of_max_attempts:
  "max_attempts steep_backoff = 6
   \<and> (\<forall>k. \<exists>e d. behaviour always_failing k = (Inl e, d) \<and> catches [Exception] e)
   \<and> fst (execute_with_retry steep_backoff (func_name always_failing) (invoke always_failing)
            None (\<lambda>a. (0, 1/2)) world0)
       = Inl (Exn OverflowError [Num 34, Str ''Numerical result out of range''])
   \<and> invocations (snd (execute_with_retry steep_backoff (func_name always_failing)
                         (invoke always_failing) None (\<lambda>a. (0, 1/2)) world0)) = 5
   \<and> max_attempts three_attempts = 3
   \<and> (\<forall>k. \<exists>e d. behaviour nameless_failing k = (Inl e, d) \<and> catches [Exception] e)
   \<and> fst (execute_with_retry three_attempts (func_name nameless_failing)
            (invoke nameless_failing) None (\<lambda>a. (0, 1/2)) world0)
       = Inl (Exn AttributeError
                [Str (quoted ''functools.partial''), Str '' object has no attribute '',
                 Str (quoted ''__name__'')])
   \<and> invocations (snd (execute_with_retry three_attempts (func_name nameless_failing)
                         (invoke nameless_failing) None (\<lambda>a. (0, 1/2)) world0)) = 1"
proof -
  have nm: "func_name always_failing = Inr ''fetch''"
    by (simp add: func_name_def always_failing_def)
  have m: "(5::int) \<le> max_attempts steep_backoff" "(5::int) < max_attempts steep_backoff"
    "max_attempts steep_backoff = 6"
    by (simp_all add: steep_backoff_def)
  from retry_loop_failing_prefix [OF always_failing_fails steep_backoff_delays m(1) refl,
      of 1 "''fetch''" None world0]
  obtain lst' w' where
    r: "retry_loop steep_backoff [Exception] (Inr ''fetch'') (invoke always_failing)
          (\<lambda>a. (0, 1/2)) 1 None world0
        = retry_loop steep_backoff [Exception] (Inr ''fetch'') (invoke always_failing)
            (\<lambda>a. (0, 1/2)) 5 lst' w'"
    and i: "invocations w' = 4"
    by (auto simp: world0_def)
  from always_failing_fails obtain e d where
    b: "behaviour always_failing (invocations w') = (Inl e, d)" "catches [Exception] e"
    by blast
  have "retry_loop steep_backoff [Exception] (Inr ''fetch'') (invoke always_failing)
          (\<lambda>a. (0, 1/2)) 5 lst' w'
      = (Inl (Exn OverflowError [Num 34, Str ''Numerical result out of range'']),
         w'\<lparr>clock := clock w' + d, invocations := Suc (invocations w')\<rparr>)"
    by (rule retry_loop_delay_raises [where run = "invoke always_failing" and w = w',
          OF m(2) invoke_raises [OF b(1)] b(2) steep_backoff_overflows])
  with r have steep: "execute_with_retry steep_backoff (func_name always_failing)
        (invoke always_failing) None (\<lambda>a. (0, 1/2)) world0
      = (Inl (Exn OverflowError [Num 34, Str ''Numerical result out of range'']),
         w'\<lparr>clock := clock w' + d, invocations := Suc (invocations w')\<rparr>)"
    by (simp add: execute_with_retry_def nm)
  have nn: "func_name nameless_failing
      = Inl (Exn AttributeError
               [Str (quoted ''functools.partial''), Str '' object has no attribute '',
                Str (quoted ''__name__'')])"
    by (simp add: func_name_def nameless_failing_def)
  have nf: "\<forall>k. \<exists>e d. behaviour nameless_failing k = (Inl e, d) \<and> catches [Exception] e"
    using always_failing_fails by (simp add: nameless_failing_def)
  then obtain e' d' where
    b': "behaviour nameless_failing (invocations world0) = (Inl e', d')" "catches [Exception] e'"
    by blast
  have t: "(1::int) \<le> max_attempts three_attempts" "max_attempts three_attempts = 3"
    by (simp_all add: three_attempts_def)
  have "retry_loop three_attempts [Exception]
          (Inl (Exn AttributeError
                  [Str (quoted ''functools.partial''), Str '' object has no attribute '',
                   Str (quoted ''__name__'')]))
          (invoke nameless_failing) (\<lambda>a. (0, 1/2)) 1 None world0
      = (Inl (Exn AttributeError
                [Str (quoted ''functools.partial''), Str '' object has no attribute '',
                 Str (quoted ''__name__'')]),
         world0\<lparr>clock := clock world0 + d', invocations := Suc (invocations world0)\<rparr>)"
    by (rule retry_loop_name_raises [where run = "invoke nameless_failing" and w = world0,
          OF t(1) invoke_raises [OF b'(1)] b'(2)])
  then have nameless: "execute_with_retry three_attempts (func_name nameless_failing)
        (invoke nameless_failing) None (\<lambda>a. (0, 1/2)) world0
      = (Inl (Exn AttributeError
                [Str (quoted ''functools.partial''), Str '' object has no attribute '',
                 Str (quoted ''__name__'')]),
         world0\<lparr>clock := clock world0 + d', invocations := Suc (invocations world0)\<rparr>)"
    by (simp add: execute_with_retry_def nn)
  show ?thesis
    unfolding steep nameless using m(3) t(2) always_failing_fails nf i
    by (simp add: world0_def)
qed

text \<open>
  C10. For an attempt number that is not positive \<^verbatim>\<open>calculate_delay\<close> returns 0,
  whatever the configuration and the random draws: neither the strategy, nor the jitter,
  nor the cap \<open>max_delay\<close> (which may even be negative) has a say.
\<close>

theorem delay_of_nonpositive_attempt:
  "attempt \<le> 0 \<Longrightarrow> calculate_delay rc us attempt = Inr 0"
  by (simp add: calculate_delay_def)

theorem delay_of_nonpositive_attempt_witness:
  "(- 2 :: int) \<le> 0 \<and> max_delay negative_cap < 0 \<and> jitter negative_cap
   \<and> calculate_delay negative_cap (1/4, 3/4) (- 2) = Inr 0"
  using delay_of_nonpositive_attempt [of "- 2" negative_cap "(1/4, 3/4)"]
  by (simp add: negative_cap_def)

text \<open>A power that is in range stays in range for a smaller exponent.\<close>

lemma float_pow_mono:
  assumes "1 < b" and "n \<le> n'" and "float_pow b n' = Inr p'"
  shows "float_pow b n = Inr (b ^ n) \<and> b ^ n \<le> p'"
proof -
  from assms(3) have c: "\<not> float_max < \<bar>real_of_int (int n')\<bar>"
    and p: "\<not> float_max < \<bar>b ^ n'\<bar>" and eq: "p' = b ^ n'"
    by (auto simp: float_pow_def float_of_int_def split: if_splits)
  have le: "b ^ n \<le> b ^ n'" using assms(1,2) by (intro power_increasing) simp_all
  have pos: "0 \<le> b ^ n" using assms(1) by simp
  have "\<not> float_max < \<bar>real_of_int (int n)\<bar>" using c assms(2) by simp
  moreover have "\<not> float_max < \<bar>b ^ n\<bar>" using p le pos by simp
  ultimately show ?thesis using le eq by (simp add: float_pow_def float_of_int_def)
qed

text \<open>
  What holds of the exponential strategy where the code returns: the delay before jitter
  does not decrease up to an attempt for which it can be computed, and a value that
  \<^verbatim>\<open>calculate_delay\<close> returns for an attempt \<open>a \<ge> 1\<close> is at most \<open>max_delay\<close>.
\<close>

lemma exponential_delay_within_range:
  assumes "strategy rc = EXPONENTIAL" and "1 < backoff_multiplier rc" and "0 \<le> base_delay rc"
    and "1 \<le> a" and "a \<le> a'" and "strategy_delay rc u a' = Inr d'"
  shows "\<exists>d. strategy_delay rc u a = Inr d \<and> d \<le> d'"
proof -
  from assms(1,6) obtain p' where
    p': "float_pow (backoff_multiplier rc) (nat (a' - 1)) = Inr p'" "d' = base_delay rc * p'"
    by (auto simp: strategy_delay_def split: sum.splits)
  have "nat (a - 1) \<le> nat (a' - 1)" using assms(4,5) by simp
  from float_pow_mono [OF assms(2) this p'(1)] assms(1,3) p'(2) show ?thesis
    by (simp add: strategy_delay_def mult_left_mono)
qed

lemma calculate_delay_capped:
  "1 \<le> a \<Longrightarrow> calculate_delay rc us a = Inr v \<Longrightarrow> v \<le> max_delay rc"
  by (auto simp: calculate_delay_def Let_def split: sum.splits)

text \<open>
  C9 fails on the code. With the default configuration (exponential, multiplier 2, base
  delay 1, cap 60) the delay of attempt 1024 is capped at 60, but for attempt 1025 the
  power \<^verbatim>\<open>2.0 ** 1024\<close> is out of range: \<^verbatim>\<open>calculate_delay\<close> raises
  \<^verbatim>\<open>OverflowError\<close> before the cap is reached and returns no value.
\<close>

theorem delay_overflows_before_cap:
  "strategy three_attempts = EXPONENTIAL \<and> 1 < backoff_multiplier three_attempts
   \<and> 0 \<le> base_delay three_attempts \<and> max_delay three_attempts = 60
   \<and> calculate_delay three_attempts (0, 1/2) 1024 = Inr 60
   \<and> calculate_delay three_attempts (0, 1/2) 1025
       = Inl (Exn OverflowError [Num 34, Str ''Numerical result out of range''])"
proof -
  have n: "nat (1024 - 1) = 1023" "nat (1025 - 1) = 1024" by simp_all
  note c = float_max_small(5,6)
  have big: "(60::real) \<le> 2 ^ 1023" by simp
  have p1: "float_pow 2 1023 = Inr (2 ^ 1023)"
    using c(1) float_max_bounds(4) by (simp add: float_pow_def float_of_int_def)
  have p2: "float_pow 2 1024
      = Inl (Exn OverflowError [Num 34, Str ''Numerical result out of range''])"
    using c(2) float_max_bounds(5) by (simp add: float_pow_def float_of_int_def)
  have "calculate_delay three_attempts (0, 1/2) 1024 = Inr 60"
    using big
    by (simp add: calculate_delay_def strategy_delay_def three_attempts_def n p1 uniform_def
          Let_def)
  moreover have "calculate_delay three_attempts (0, 1/2) 1025
      = Inl (Exn OverflowError [Num 34, Str ''Numerical result out of range''])"
    by (simp add: calculate_delay_def strategy_delay_def three_attempts_def n p2)
  ultimately show ?thesis by (simp add: three_attempts_def)
qed

section \<open>Circuit breaker\<close>

text \<open>
  One call whose operation raises an \<^verbatim>\<open>Exception\<close>, on a breaker that is open or is
  closed with \<open>n + 1\<close> failures to go: afterwards it is open or closed with \<open>n\<close> to go.
\<close>

lemma call_failing_step:
  assumes "behaviour f (invocations w) = (Inl e, d)" and "isinstance e Exception"
    and "call cb f w = (res, cb', w')"
    and "(state cb = OPEN \<and> last_failure_time cb \<noteq> None)
       \<or> (state cb = CLOSED \<and> failure_count cb < failure_threshold (config cb)
           \<and> failure_threshold (config cb) \<le> failure_count cb + 1 + int n)"
  shows "((state cb' = OPEN \<and> last_failure_time cb' \<noteq> None)
       \<or> (state cb' = CLOSED \<and> failure_count cb' < failure_threshold (config cb')
           \<and> failure_threshold (config cb') \<le> failure_count cb' + int n))
       \<and> config cb' = config cb \<and> name cb' = name cb"
  using assms
  by (auto simp: call_def check_open_def execute_function_def record_failure_def
        invoke_raises Let_def split: if_splits sum.splits)

lemma calls_failing:
  assumes fails: "\<forall>k. \<exists>e d. behaviour f k = (Inl e, d) \<and> isinstance e Exception"
  shows "calls cb f gaps w = (rs, cb', w') \<Longrightarrow>
     (state cb = OPEN \<and> last_failure_time cb \<noteq> None)
       \<or> (state cb = CLOSED \<and> failure_count cb < failure_threshold (config cb)
           \<and> failure_threshold (config cb) \<le> failure_count cb + int (length gaps)) \<Longrightarrow>
     ((state cb' = OPEN \<and> last_failure_time cb' \<noteq> None)
       \<or> (state cb' = CLOSED \<and> failure_count cb' < failure_threshold (config cb')
           \<and> failure_threshold (config cb') \<le> failure_count cb'))
     \<and> config cb' = config cb \<and> name cb' = name cb"
proof (induction gaps arbitrary: cb w rs)
  case Nil
  then show ?case by simp
next
  case (Cons gap gaps)
  obtain res cb1 w1 where c: "call cb f (idle gap w) = (res, cb1, w1)"
    by (cases "call cb f (idle gap w)") auto
  obtain rs1 where r: "calls cb1 f gaps w1 = (rs1, cb', w')"
    using Cons.prems(1) c by (auto split: prod.splits)
  from fails obtain e d where b: "behaviour f (invocations (idle gap w)) = (Inl e, d)"
    "isinstance e Exception" by blast
  have pre: "(state cb = OPEN \<and> last_failure_time cb \<noteq> None)
       \<or> (state cb = CLOSED \<and> failure_count cb < failure_threshold (config cb)
           \<and> failure_threshold (config cb) \<le> failure_count cb + 1 + int (length gaps))"
    using Cons.prems(2) by auto
  note s = call_failing_step [OF b c pre]
  from s have pre1: "(state cb1 = OPEN \<and> last_failure_time cb1 \<noteq> None)
       \<or> (state cb1 = CLOSED \<and> failure_count cb1 < failure_threshold (config cb1)
           \<and> failure_threshold (config cb1) \<le> failure_count cb1 + int (length gaps))"
    and same: "config cb1 = config cb" "name cb1 = name cb"
    by blast+
  from Cons.IH [OF r pre1] show ?case unfolding same .
qed

lemma calls_eval:
  "calls fresh always_failing [0, 0, 0] world0 =
     ([Inl (Exn CircuitBreakerException
         [Str ''Circuit breaker '', Str ''broker'', Str '' failure: '', Str ''down '', Num 0]),
       Inl (Exn CircuitBreakerException
         [Str ''Circuit breaker '', Str ''broker'', Str '' failure: '', Str ''down '', Num 1]),
       Inl (Exn CircuitBreakerException
         [Str ''Circuit breaker '', Str ''broker'', Str '' failure: '', Str ''down '', Num 2])],
      \<lparr>name = ''broker'', config = scenario_config, state = OPEN, failure_count = 3,
       success_count = 0, last_failure_time = Some 3, last_success_time = None,
       total_requests = 3, total_failures = 3, total_successes = 0\<rparr>,
      \<lparr>clock = 3, invocations = 3, slept = []\<rparr>)"
  by (simp add: fresh_def CircuitBreaker_init_def scenario_config_def always_failing_def
        world0_def call_def check_open_def execute_function_def record_failure_def
        invoke_def idle_def isinstance_def issubclass_def Let_def)

lemma tripped_eval:
  "tripped = \<lparr>name = ''broker'', config = scenario_config, state = OPEN, failure_count = 3,
       success_count = 0, last_failure_time = Some 3, last_success_time = None,
       total_requests = 3, total_failures = 3, total_successes = 0\<rparr>"
  "after_trip = \<lparr>clock = 3, invocations = 3, slept = []\<rparr>"
  unfolding tripped_def after_trip_def calls_eval by simp_all

text \<open>
  With a threshold of at least 1, a breaker that is closed has a failure count from 0 up
  to but not including the threshold: so it is when constructed, and every call keeps it
  so.
\<close>

lemma closed_failure_count:
  assumes "1 \<le> failure_threshold (config cb)"
    and "state cb = CLOSED \<longrightarrow>
           0 \<le> failure_count cb \<and> failure_count cb < failure_threshold (config cb)"
    and "call cb f w = (res, cb', w')"
  shows "config cb' = config cb
       \<and> (state cb' = CLOSED \<longrightarrow>
            0 \<le> failure_count cb' \<and> failure_count cb' < failure_threshold (config cb'))"
  using assms
  by (cases "behaviour f (invocations w)")
     (auto simp: call_def check_open_def execute_function_def record_failure_def
        record_success_def invoke_def Let_def split: if_splits sum.splits)

lemma closed_failure_count_init:
  "1 \<le> failure_threshold cfg \<Longrightarrow>
   state (CircuitBreaker_init nm cfg) = CLOSED
   \<and> 0 \<le> failure_count (CircuitBreaker_init nm cfg)
   \<and> failure_count (CircuitBreaker_init nm cfg)
       < failure_threshold (config (CircuitBreaker_init nm cfg))"
  by (simp add: CircuitBreaker_init_def)

text \<open>An open breaker that failed less than \<open>recovery_timeout\<close> ago rejects the call.\<close>

lemma rejected_call:
  assumes "state cb = OPEN" and "last_failure_time cb = Some t"
    and "clock w - t < recovery_timeout (config cb)"
  shows "call cb f w =
     (Inl (Exn CircuitBreakerOpenException
             [Str ''Circuit breaker '', Str (name cb), Str '' is open'']), cb, w)"
  using assms by (simp add: call_def check_open_def should_attempt_reset_def)

text \<open>
  C2. Take a closed breaker with threshold \<open>N \<ge> 1\<close> (its failure count is below \<open>N\<close> and
  not negative, as \<open>closed_failure_count\<close> shows it to be) and an operation that
  raises an \<^verbatim>\<open>Exception\<close> on every invocation. After \<open>N\<close> calls in a row, however much
  time passes between them, the breaker is open and has a last failure time; and the next
  call, made while less than \<open>recovery_timeout\<close> has passed since that time, raises
  \<^verbatim>\<open>CircuitBreakerOpenException\<close> and leaves breaker and world untouched: the operation
  is not invoked.
\<close>

theorem threshold_opens_breaker:
  assumes "state cb = CLOSED"
    and "0 \<le> failure_count cb" and "failure_count cb < failure_threshold (config cb)"
    and "\<forall>k. \<exists>e d. behaviour f k = (Inl e, d) \<and> isinstance e Exception"
    and "int (length gaps) = failure_threshold (config cb)"
    and "calls cb f gaps w = (rs, cb', w')"
    and "\<forall>t. last_failure_time cb' = Some t \<longrightarrow> clock w'' - t < recovery_timeout (config cb')"
  shows "state cb' = OPEN \<and> last_failure_time cb' \<noteq> None
       \<and> call cb' f w'' =
           (Inl (Exn CircuitBreakerOpenException
                   [Str ''Circuit breaker '', Str (name cb), Str '' is open'']), cb', w'')"
proof -
  have pre: "(state cb = OPEN \<and> last_failure_time cb \<noteq> None)
       \<or> (state cb = CLOSED \<and> failure_count cb < failure_threshold (config cb)
           \<and> failure_threshold (config cb) \<le> failure_count cb + int (length gaps))"
    using assms(1,2,3,5) by simp
  from calls_failing [OF assms(4) assms(6) pre]
  have op: "state cb' = OPEN" and lf: "last_failure_time cb' \<noteq> None"
    and nm: "name cb' = name cb"
    by auto
  from lf obtain t where t: "last_failure_time cb' = Some t" by blast
  with assms(7) have "clock w'' - t < recovery_timeout (config cb')" by blast
  from rejected_call [OF op t this, of f] op lf nm show ?thesis by simp
qed

theorem threshold_opens_breaker_witness:
  "state fresh = CLOSED \<and> failure_count fresh = 0 \<and> failure_threshold (config fresh) = 3
   \<and> (\<forall>k. \<exists>e d. behaviour always_failing k = (Inl e, d) \<and> isinstance e Exception)
   \<and> calls fresh always_failing [0, 0, 0] world0 =
       ([Inl (Exn CircuitBreakerException
           [Str ''Circuit breaker '', Str ''broker'', Str '' failure: '', Str ''down '', Num 0]),
         Inl (Exn CircuitBreakerException
           [Str ''Circuit breaker '', Str ''broker'', Str '' failure: '', Str ''down '', Num 1]),
         Inl (Exn CircuitBreakerException
           [Str ''Circuit breaker '', Str ''broker'', Str '' failure: '', Str ''down '', Num 2])],
        tripped, after_trip)
   \<and> last_failure_time tripped = Some 3 \<and> recovery_timeout (config tripped) = 1
   \<and> clock (idle (1/2) after_trip) - 3 < 1
   \<and> state tripped = OPEN
   \<and> call tripped always_failing (idle (1/2) after_trip) =
        (Inl (Exn CircuitBreakerOpenException
                [Str ''Circuit breaker '', Str ''broker'', Str '' is open'']),
         tripped, idle (1/2) after_trip)
   \<and> invocations (idle (1/2) after_trip) = 3 \<and> invocations after_trip = 3"
proof -
  have h1: "state fresh = CLOSED" and h2: "0 \<le> failure_count fresh"
    and h3: "failure_count fresh < failure_threshold (config fresh)"
    and h5: "int (length [0, 0, 0 :: real]) = failure_threshold (config fresh)"
    and f: "failure_count fresh = 0" "failure_threshold (config fresh) = 3"
      "name fresh = ''broker''"
    by (simp_all add: fresh_def CircuitBreaker_init_def scenario_config_def)
  have h4: "\<forall>k. \<exists>e d. behaviour always_failing k = (Inl e, d) \<and> isinstance e Exception"
    by (simp add: always_failing_def isinstance_def issubclass_def)
  have h6: "calls fresh always_failing [0, 0, 0] world0 =
       ([Inl (Exn CircuitBreakerException
           [Str ''Circuit breaker '', Str ''broker'', Str '' failure: '', Str ''down '', Num 0]),
         Inl (Exn CircuitBreakerException
           [Str ''Circuit breaker '', Str ''broker'', Str '' failure: '', Str ''down '', Num 1]),
         Inl (Exn CircuitBreakerException
           [Str ''Circuit breaker '', Str ''broker'', Str '' failure: '', Str ''down '', Num 2])],
        tripped, after_trip)"
    unfolding tripped_eval calls_eval ..
  have t: "last_failure_time tripped = Some 3" "recovery_timeout (config tripped) = 1"
    "clock (idle (1/2) after_trip) - 3 < 1"
    "invocations (idle (1/2) after_trip) = 3" "invocations after_trip = 3"
    by (simp_all add: tripped_eval idle_def scenario_config_def)
  have h7: "\<forall>t. last_failure_time tripped = Some t \<longrightarrow>
      clock (idle (1/2) after_trip) - t < recovery_timeout (config tripped)"
    using t by simp
  from threshold_opens_breaker [OF h1 h2 h3 h4 h5 h6 h7] h1 f h4 h6 t
  show ?thesis by simp
qed

lemma execute_function_invokes:
  "invocations (snd (snd (execute_function cb f w))) = Suc (invocations w)"
  by (cases "behaviour f (invocations w)")
     (simp add: execute_function_def invoke_def split: sum.splits)

text \<open>
  C6. Take a breaker that is open with last failure time \<open>t0\<close>. A call made before
  \<open>t0 + recovery_timeout\<close> raises \<^verbatim>\<open>CircuitBreakerOpenException\<close> and changes
  nothing, so the same holds for every later call before that instant. A call made at or
  after \<open>t0 + recovery_timeout\<close> is admitted: the breaker is set to \<^verbatim>\<open>HALF_OPEN\<close> with
  \<open>success_count = 0\<close>, and in that state the operation is executed, once.
\<close>

theorem recovery_window:
  assumes "state cb = OPEN" and "last_failure_time cb = Some t0"
  shows "(clock w < t0 + recovery_timeout (config cb) \<longrightarrow>
            call cb f w =
              (Inl (Exn CircuitBreakerOpenException
                      [Str ''Circuit breaker '', Str (name cb), Str '' is open'']), cb, w))
       \<and> (t0 + recovery_timeout (config cb) \<le> clock w \<longrightarrow>
            check_open cb w = Inr (cb\<lparr>state := HALF_OPEN, success_count := 0\<rparr>)
            \<and> call cb f w = execute_function (cb\<lparr>state := HALF_OPEN, success_count := 0\<rparr>) f w
            \<and> invocations (snd (snd (call cb f w))) = Suc (invocations w))"
proof (intro conjI impI)
  assume "clock w < t0 + recovery_timeout (config cb)"
  then have "clock w - t0 < recovery_timeout (config cb)" by simp
  from rejected_call [OF assms this]
  show "call cb f w =
      (Inl (Exn CircuitBreakerOpenException
              [Str ''Circuit breaker '', Str (name cb), Str '' is open'']), cb, w)" .
next
  assume late: "t0 + recovery_timeout (config cb) \<le> clock w"
  then show adm: "check_open cb w = Inr (cb\<lparr>state := HALF_OPEN, success_count := 0\<rparr>)"
    using assms by (simp add: check_open_def should_attempt_reset_def)
  then show run:
    "call cb f w = execute_function (cb\<lparr>state := HALF_OPEN, success_count := 0\<rparr>) f w"
    by (simp add: call_def)
  then show "invocations (snd (snd (call cb f w))) = Suc (invocations w)"
    by (simp add: execute_function_invokes)
qed

theorem recovery_window_witness:
  "state tripped = OPEN \<and> last_failure_time tripped = Some 3
   \<and> recovery_timeout (config tripped) = 1
   \<and> clock (idle (1/2) after_trip) < 3 + 1
   \<and> call tripped always_failing (idle (1/2) after_trip) =
        (Inl (Exn CircuitBreakerOpenException
                [Str ''Circuit breaker '', Str ''broker'', Str '' is open'']),
         tripped, idle (1/2) after_trip)
   \<and> 3 + 1 \<le> clock (idle 1 after_trip)
   \<and> check_open tripped (idle 1 after_trip)
        = Inr (tripped\<lparr>state := HALF_OPEN, success_count := 0\<rparr>)
   \<and> invocations (snd (snd (call tripped always_failing (idle 1 after_trip))))
        = Suc (invocations (idle 1 after_trip))"
proof -
  have h1: "state tripped = OPEN" and h2: "last_failure_time tripped = Some 3"
    by (simp_all add: tripped_eval)
  have nm: "name tripped = ''broker''" and rt: "recovery_timeout (config tripped) = 1"
    by (simp_all add: tripped_eval scenario_config_def)
  have early: "clock (idle (1/2) after_trip) < 3 + 1"
    and late: "3 + 1 \<le> clock (idle 1 after_trip)"
    by (simp_all add: tripped_eval idle_def)
  show ?thesis
    using recovery_window [OF h1 h2, of "idle (1/2) after_trip" always_failing]
      recovery_window [OF h1 h2, of "idle 1 after_trip" always_failing]
      h1 h2 early late
    unfolding nm rt by blast
qed

text \<open>
  C5 as stated fails: a call rejected by the open breaker raises before anything is
  recorded, so none of the three counters moves.
\<close>

theorem counters_skip_rejected_call_counterexample:
  "state tripped = OPEN
   \<and> fst (call tripped always_failing (idle (1/2) after_trip))
       = Inl (Exn CircuitBreakerOpenException
                [Str ''Circuit breaker '', Str ''broker'', Str '' is open''])
   \<and> total_requests (fst (snd (call tripped always_failing (idle (1/2) after_trip))))
       \<noteq> total_requests tripped + 1
   \<and> total_failures (fst (snd (call tripped always_failing (idle (1/2) after_trip))))
       \<noteq> total_failures tripped + 1
   \<and> total_successes (fst (snd (call tripped always_failing (idle (1/2) after_trip))))
       \<noteq> total_successes tripped + 1"
proof -
  have "clock (idle (1/2) after_trip) - 3 < recovery_timeout (config tripped)"
    by (simp add: tripped_eval idle_def scenario_config_def)
  from rejected_call [of tripped 3, OF _ _ this, of always_failing]
  have "call tripped always_failing (idle (1/2) after_trip) =
     (Inl (Exn CircuitBreakerOpenException
             [Str ''Circuit breaker '', Str (name tripped), Str '' is open'']),
      tripped, idle (1/2) after_trip)"
    by (simp add: tripped_eval)
  then show ?thesis by (simp add: tripped_eval)
qed

text \<open>
  C5, amended. A call that the open breaker rejects leaves \<open>total_requests\<close>,
  \<open>total_failures\<close> and \<open>total_successes\<close> as they were. Every other call, when its
  operation returns or raises an \<^verbatim>\<open>Exception\<close>, adds 1 to \<open>total_requests\<close> and 1 to
  exactly one of the other two: to \<open>total_failures\<close> when the call raises, to
  \<open>total_successes\<close> when it returns.
\<close>

theorem counters_follow_executed_calls:
  assumes "call cb f w = (res, cb', w')"
  shows "(state cb = OPEN \<and> \<not> should_attempt_reset cb w \<longrightarrow>
            total_requests cb' = total_requests cb
            \<and> total_failures cb' = total_failures cb
            \<and> total_successes cb' = total_successes cb)
       \<and> (\<not> (state cb = OPEN \<and> \<not> should_attempt_reset cb w)
            \<and> (case fst (behaviour f (invocations w)) of
                  Inl e \<Rightarrow> isinstance e Exception | Inr v \<Rightarrow> True) \<longrightarrow>
            total_requests cb' = total_requests cb + 1
            \<and> (if isl res
               then total_failures cb' = total_failures cb + 1
                    \<and> total_successes cb' = total_successes cb
               else total_successes cb' = total_successes cb + 1
                    \<and> total_failures cb' = total_failures cb))"
  using assms
  by (cases "behaviour f (invocations w)")
     (auto simp: call_def check_open_def execute_function_def record_failure_def
        record_success_def invoke_def Let_def split: if_splits sum.splits)

theorem counters_follow_executed_calls_witness:
  "state tripped = OPEN \<and> \<not> should_attempt_reset tripped (idle (1/2) after_trip)
   \<and> total_requests (fst (snd (call tripped always_failing (idle (1/2) after_trip)))) = 3
   \<and> total_requests tripped = 3
   \<and> state fresh = CLOSED
   \<and> isinstance (Exn (AppError ''BrokerUnavailable'') [Str ''down '', Num 0]) Exception
   \<and> total_requests (fst (snd (call fresh always_failing world0))) = 1
   \<and> total_failures (fst (snd (call fresh always_failing world0))) = 1
   \<and> total_successes (fst (snd (call fresh always_failing world0))) = 0
   \<and> total_requests fresh = 0 \<and> total_failures fresh = 0 \<and> total_successes fresh = 0"
proof -
  obtain r1 c1 w1 where a: "call tripped always_failing (idle (1/2) after_trip) = (r1, c1, w1)"
    by (cases "call tripped always_failing (idle (1/2) after_trip)") auto
  obtain r2 c2 w2 where b: "call fresh always_failing world0 = (r2, c2, w2)"
    by (cases "call fresh always_failing world0") auto
  have rej: "state tripped = OPEN \<and> \<not> should_attempt_reset tripped (idle (1/2) after_trip)"
    by (simp add: tripped_eval should_attempt_reset_def idle_def scenario_config_def)
  have adm: "\<not> (state fresh = OPEN \<and> \<not> should_attempt_reset fresh world0)"
    "state fresh = CLOSED"
    "total_requests fresh = 0" "total_failures fresh = 0" "total_successes fresh = 0"
    by (simp_all add: fresh_def CircuitBreaker_init_def)
  have out: "fst (behaviour always_failing (invocations world0))
      = Inl (Exn (AppError ''BrokerUnavailable'') [Str ''down '', Num 0])"
    "isinstance (Exn (AppError ''BrokerUnavailable'') [Str ''down '', Num 0]) Exception"
    by (simp_all add: always_failing_def world0_def isinstance_def issubclass_def)
  have r2: "isl r2"
    using b by (auto simp: call_def check_open_def execute_function_def invoke_def
        always_failing_def fresh_def CircuitBreaker_init_def world0_def
        split: if_splits)
  show ?thesis
    using counters_follow_executed_calls [OF a] counters_follow_executed_calls [OF b]
      rej adm out r2 a b
    by (simp add: tripped_eval)
qed

text \<open>
  C3 as stated fails: on a closed breaker what the caller receives is not the exception
  the operation raised but a \<^verbatim>\<open>CircuitBreakerException\<close> with a message built from its
  text.
\<close>

theorem operation_error_not_passed_through_counterexample:
  "state fresh \<noteq> OPEN
   \<and> fst (behaviour always_failing (invocations world0))
       = Inl (Exn (AppError ''BrokerUnavailable'') [Str ''down '', Num 0])
   \<and> fst (call fresh always_failing world0)
       = Inl (Exn CircuitBreakerException
                [Str ''Circuit breaker '', Str ''broker'', Str '' failure: '',
                 Str ''down '', Num 0])
   \<and> fst (call fresh always_failing world0)
       \<noteq> fst (behaviour always_failing (invocations world0))"
  by (simp add: fresh_def CircuitBreaker_init_def always_failing_def
        world0_def call_def check_open_def execute_function_def invoke_def
        isinstance_def issubclass_def)

text \<open>
  C3, amended. When the breaker is not open and the operation raises an \<^verbatim>\<open>Exception\<close>
  \<open>e\<close> other than \<^verbatim>\<open>asyncio.TimeoutError\<close>, what the caller receives is not \<open>e\<close> but a
  \<^verbatim>\<open>CircuitBreakerException\<close> whose message is \<^verbatim>\<open>Circuit breaker <name> failure: \<close>
  followed by \<^verbatim>\<open>str(e)\<close>. An exception of that class is told apart from the rejections
  of the resilience layer: it is no instance of \<^verbatim>\<open>CircuitBreakerOpenException\<close>, of
  \<^verbatim>\<open>CircuitBreakerTimeoutException\<close> or of \<^verbatim>\<open>TimeoutException\<close>.
\<close>

theorem operation_error_is_wrapped:
  assumes "state cb \<noteq> OPEN" and "behaviour f (invocations w) = (Inl e, d)"
    and "isinstance e Exception" and "\<not> isinstance e AsyncTimeoutError"
  shows "fst (call cb f w)
           = Inl (Exn CircuitBreakerException
                    ([Str ''Circuit breaker '', Str (name cb), Str '' failure: ''] @ str e))
       \<and> fst (call cb f w) \<noteq> Inl e
       \<and> \<not> isinstance (Exn CircuitBreakerException m) CircuitBreakerOpenException
       \<and> \<not> isinstance (Exn CircuitBreakerException m) CircuitBreakerTimeoutException
       \<and> \<not> isinstance (Exn CircuitBreakerException m) TimeoutException"
  using assms
  by (cases e)
     (auto simp: call_def check_open_def execute_function_def invoke_def
        isinstance_def issubclass_def)

theorem operation_error_is_wrapped_witness:
  "state fresh \<noteq> OPEN
   \<and> behaviour always_failing (invocations world0)
       = (Inl (Exn (AppError ''BrokerUnavailable'') [Str ''down '', Num 0]), 1)
   \<and> isinstance (Exn (AppError ''BrokerUnavailable'') [Str ''down '', Num 0]) Exception
   \<and> \<not> isinstance (Exn (AppError ''BrokerUnavailable'') [Str ''down '', Num 0]) AsyncTimeoutError
   \<and> fst (call fresh always_failing world0)
       = Inl (Exn CircuitBreakerException
                [Str ''Circuit breaker '', Str ''broker'', Str '' failure: '',
                 Str ''down '', Num 0])"
proof -
  have h1: "state fresh \<noteq> OPEN" and nm: "name fresh = ''broker''"
    by (simp_all add: fresh_def CircuitBreaker_init_def)
  have h2: "behaviour always_failing (invocations world0)
      = (Inl (Exn (AppError ''BrokerUnavailable'') [Str ''down '', Num 0]), 1)"
    by (simp add: always_failing_def world0_def)
  have h3: "isinstance (Exn (AppError ''BrokerUnavailable'') [Str ''down '', Num 0]) Exception"
    and h4: "\<not> isinstance (Exn (AppError ''BrokerUnavailable'') [Str ''down '', Num 0])
               AsyncTimeoutError"
    by (simp_all add: isinstance_def issubclass_def)
  show ?thesis
    using operation_error_is_wrapped [OF h1 h2 h3 h4] h1 h2 h3 h4 by (simp add: nm)
qed

section \<open>Rate limiter\<close>

text \<open>The loop removes a prefix of instants that are all at or below the bound.\<close>

lemma remove_old_split:
  "\<exists>D. qs = D @ remove_old b qs \<and> (\<forall>d \<in> set D. d \<le> b)"
proof (induction qs)
  case Nil
  then show ?case by simp
next
  case (Cons q qs)
  show ?case
  proof (cases "q \<le> b")
    case True
    from Cons.IH obtain D where "qs = D @ remove_old b qs" "\<forall>d \<in> set D. d \<le> b" by blast
    with True have "q # qs = (q # D) @ remove_old b (q # qs) \<and> (\<forall>d \<in> set (q # D). d \<le> b)"
      by simp
    then show ?thesis by blast
  next
    case False
    then have "q # qs = [] @ remove_old b (q # qs) \<and> (\<forall>d \<in> set []. d \<le> b)" by simp
    then show ?thesis by blast
  qed
qed

lemma remove_old_keeps: "\<forall>q \<in> set qs. b < q \<Longrightarrow> remove_old b qs = qs"
  by (cases qs) auto

lemma remove_old_drops: "\<forall>q \<in> set qs. q \<le> b \<Longrightarrow> remove_old b qs = []"
  by (induction qs) auto

lemma set_remove_old: "set (remove_old b qs) \<subseteq> set qs"
  by (induction qs) auto

lemma acquire_fields:
  "acquire rl w = (ok, rl1) \<Longrightarrow>
     max_requests rl1 = max_requests rl \<and> time_window rl1 = time_window rl"
  by (auto simp: acquire_def Let_def split: if_splits)

text \<open>
  \<open>hist\<close> lists every instant at which a permit was granted so far. While the clock does
  not run backwards, the queue is what is left of \<open>hist\<close> after a prefix \<open>D\<close> of instants
  that have left the window for good.
\<close>

lemma acquire_history:
  assumes "hist = D @ requests rl" and "\<forall>d \<in> set D. d \<le> clock w - time_window rl"
    and "0 \<le> gap" and "acquire rl (idle gap w) = (ok, rl1)"
  shows "\<exists>D1. hist @ (if ok then [clock (idle gap w)] else []) = D1 @ requests rl1
           \<and> (\<forall>d \<in> set D1. d \<le> clock (idle gap w) - time_window rl)
           \<and> (ok \<longrightarrow> int (length (requests rl1)) \<le> max_requests rl)"
proof -
  let ?now = "clock (idle gap w)"
  let ?kept = "remove_old (?now - time_window rl) (requests rl)"
  obtain D' where D': "requests rl = D' @ ?kept" "\<forall>d \<in> set D'. d \<le> ?now - time_window rl"
    using remove_old_split by blast
  have le: "clock w \<le> ?now" using assms(3) by (simp add: idle_def)
  have old: "\<forall>d \<in> set (D @ D'). d \<le> ?now - time_window rl"
    using assms(2) D'(2) le by fastforce
  have h: "hist = (D @ D') @ ?kept" using assms(1) D'(1) by simp
  show ?thesis
  proof (cases ok)
    case True
    then have "requests rl1 = ?kept @ [?now]" "int (length ?kept) < max_requests rl"
      using assms(4) by (auto simp: acquire_def Let_def split: if_splits)
    with True h old show ?thesis by (intro exI [of _ "D @ D'"]) simp
  next
    case False
    then have "requests rl1 = ?kept"
      using assms(4) by (auto simp: acquire_def Let_def split: if_splits)
    with False h old show ?thesis by (intro exI [of _ "D @ D'"]) simp
  qed
qed

lemma count_recent:
  assumes "hist = D @ qs" and "\<forall>d \<in> set D. d \<le> (b::real)"
  shows "length (filter (\<lambda>t. b < t) hist) \<le> length qs"
proof -
  have "filter (\<lambda>t. b < t) D = []" using assms(2) by (auto simp: filter_empty_conv)
  then have "filter (\<lambda>t. b < t) hist = filter (\<lambda>t. b < t) qs" using assms(1) by simp
  then show ?thesis by simp
qed

lemma acquires_window:
  "hist = D @ requests rl \<Longrightarrow> \<forall>d \<in> set D. d \<le> clock w - time_window rl \<Longrightarrow>
   \<forall>g \<in> set gaps. 0 \<le> g \<Longrightarrow> acquires rl gaps w = (entries, rl', w') \<Longrightarrow>
   i < length entries \<Longrightarrow> fst (entries ! i) \<Longrightarrow>
   int (length (filter (\<lambda>t. snd (entries ! i) - time_window rl < t)
                  (hist @ granted (take (Suc i) entries)))) \<le> max_requests rl"
proof (induction gaps arbitrary: rl w hist D entries i)
  case Nil
  then show ?case by simp
next
  case (Cons gap gaps)
  let ?w1 = "idle gap w"
  obtain ok rl1 where a: "acquire rl ?w1 = (ok, rl1)" by (cases "acquire rl ?w1") auto
  obtain es where r: "acquires rl1 gaps ?w1 = (es, rl', w')"
    and e: "entries = (ok, clock ?w1) # es"
    using Cons.prems(4) a by (auto split: prod.splits)
  have g0: "0 \<le> gap" and gs: "\<forall>g \<in> set gaps. 0 \<le> g" using Cons.prems(3) by simp_all
  from acquire_history [OF Cons.prems(1,2) g0 a] obtain D1 where
    h1: "hist @ (if ok then [clock ?w1] else []) = D1 @ requests rl1"
    and d1: "\<forall>d \<in> set D1. d \<le> clock ?w1 - time_window rl"
    and len: "ok \<longrightarrow> int (length (requests rl1)) \<le> max_requests rl"
    by blast
  note f = acquire_fields [OF a]
  show ?case
  proof (cases i)
    case 0
    then have ok: ok using Cons.prems(6) e by simp
    have "granted (take (Suc i) entries) = [clock ?w1]"
      using 0 e ok by (simp add: granted_def)
    moreover have "length (filter (\<lambda>t. clock ?w1 - time_window rl < t) (hist @ [clock ?w1]))
        \<le> length (requests rl1)"
      using count_recent [OF _ d1] h1 ok by simp
    ultimately show ?thesis using len ok 0 e by simp
  next
    case (Suc j)
    have j: "j < length es" "fst (es ! j)" using Cons.prems(5,6) Suc e by simp_all
    have d1': "\<forall>d \<in> set D1. d \<le> clock ?w1 - time_window rl1" using d1 f by simp
    have "granted (take (Suc i) entries)
        = (if ok then [clock ?w1] else []) @ granted (take (Suc j) es)"
      using Suc e by (simp add: granted_def)
    then have "hist @ granted (take (Suc i) entries)
        = (hist @ (if ok then [clock ?w1] else [])) @ granted (take (Suc j) es)"
      by simp
    moreover have "entries ! i = es ! j" using Suc e by simp
    ultimately show ?thesis
      using Cons.IH [OF h1 d1' gs r j] f by simp
  qed
qed

lemma acquire_requests:
  "acquire rl w = (ok, rl1) \<Longrightarrow> set (requests rl1) \<subseteq> insert (clock w) (set (requests rl))"
  using set_remove_old [of "clock w - time_window rl" "requests rl"]
  by (auto simp: acquire_def Let_def split: if_splits)

lemma acquires_basic:
  "\<forall>g \<in> set gaps. 0 \<le> g \<Longrightarrow> acquires rl gaps w = (entries, rl', w') \<Longrightarrow>
   \<forall>q \<in> set (requests rl). q \<le> clock w \<Longrightarrow>
   (\<forall>q \<in> set (requests rl'). q \<le> clock w')
   \<and> max_requests rl' = max_requests rl \<and> time_window rl' = time_window rl
   \<and> clock w' = clock w + sum_list gaps"
proof (induction gaps arbitrary: rl w entries)
  case Nil
  then show ?case by simp
next
  case (Cons gap gaps)
  let ?w1 = "idle gap w"
  obtain ok rl1 where a: "acquire rl ?w1 = (ok, rl1)" by (cases "acquire rl ?w1") auto
  obtain es where r: "acquires rl1 gaps ?w1 = (es, rl', w')"
    using Cons.prems(2) a by (auto split: prod.splits)
  have g0: "0 \<le> gap" and gs: "\<forall>g \<in> set gaps. 0 \<le> g" using Cons.prems(1) by simp_all
  have c1: "clock ?w1 = clock w + gap" by (simp add: idle_def)
  have "\<forall>q \<in> set (requests rl1). q \<le> clock ?w1"
    using acquire_requests [OF a] Cons.prems(3) g0 c1 by fastforce
  from Cons.IH [OF gs r this] acquire_fields [OF a] c1 show ?case by auto
qed

lemma acquire_inside_window:
  assumes "\<forall>q \<in> set (requests rl). clock w - time_window rl < q"
  shows "acquire rl w =
     (if int (length (requests rl)) < max_requests rl
      then (True, rl\<lparr>requests := requests rl @ [clock w]\<rparr>) else (False, rl))"
  using remove_old_keeps [OF assms] by (simp add: acquire_def Let_def)

lemma acquires_all_granted:
  "\<forall>g \<in> set gaps. 0 \<le> g \<Longrightarrow> 0 \<le> g' \<Longrightarrow> acquires rl gaps w = (entries, rl', w') \<Longrightarrow>
   \<forall>q \<in> set (requests rl). clock w + sum_list gaps + g' - time_window rl < q \<Longrightarrow>
   sum_list (tl gaps) + g' < time_window rl \<Longrightarrow>
   int (length (requests rl) + length gaps) \<le> max_requests rl \<Longrightarrow>
   (\<forall>e \<in> set entries. fst e)
   \<and> length (requests rl') = length (requests rl) + length gaps
   \<and> (\<forall>q \<in> set (requests rl'). clock w + sum_list gaps + g' - time_window rl < q)"
proof (induction gaps arbitrary: rl w entries)
  case Nil
  then show ?case by simp
next
  case (Cons gap gaps)
  let ?w1 = "idle gap w"
  have g0: "0 \<le> gap" and gs: "\<forall>g \<in> set gaps. 0 \<le> g" using Cons.prems(1) by simp_all
  have sums: "0 \<le> sum_list gaps" using gs by (simp add: sum_list_nonneg)
  have c1: "clock ?w1 = clock w + gap" by (simp add: idle_def)
  have inside: "\<forall>q \<in> set (requests rl). clock ?w1 - time_window rl < q"
    using Cons.prems(4) Cons.prems(2) sums c1 by fastforce
  have room: "int (length (requests rl)) < max_requests rl" using Cons.prems(6) by simp
  let ?rl1 = "rl\<lparr>requests := requests rl @ [clock ?w1]\<rparr>"
  have a: "acquire rl ?w1 = (True, ?rl1)"
    using acquire_inside_window [OF inside] room by simp
  obtain es where r: "acquires ?rl1 gaps ?w1 = (es, rl', w')"
    and e: "entries = (True, clock ?w1) # es"
    using Cons.prems(3) a by (auto split: prod.splits)
  have new: "sum_list gaps + g' < time_window rl" using Cons.prems(5) by simp
  have p4: "\<forall>q \<in> set (requests ?rl1).
      clock ?w1 + sum_list gaps + g' - time_window ?rl1 < q"
    using Cons.prems(4) c1 new by auto
  have "sum_list (tl gaps) \<le> sum_list gaps"
    using gs by (cases gaps) simp_all
  then have p5: "sum_list (tl gaps) + g' < time_window ?rl1" using new by simp
  have p6: "int (length (requests ?rl1) + length gaps) \<le> max_requests ?rl1"
    using Cons.prems(6) by simp
  from Cons.IH [OF gs Cons.prems(2) r p4 p5 p6] e c1 show ?case
    by (simp add: add.assoc)
qed

text \<open>
  C8. A limiter with \<open>max_requests = R\<close> and \<open>time_window = W\<close> starts with an empty queue
  and \<^verbatim>\<open>acquire\<close> is called again and again while the clock does not run backwards.
  \<^item> Whenever a call returns true at instant \<open>now\<close>, at most \<open>R\<close> of the permits granted up
    to and including this one were granted later than \<open>now - W\<close>.
  \<^item> \<open>R\<close> calls of which the last comes less than \<open>W\<close> after the first all return true, and
    one more call that still comes less than \<open>W\<close> after the first returns false.
  \<^item> With \<open>R \<ge> 1\<close>, a call made when \<open>W\<close> has passed since the last call returns true.
  The window is \<open>(now - W, now]\<close>: the loop also drops the instant \<open>now - W\<close> itself.
\<close>

theorem sliding_window_bound:
  assumes "requests rl = []" and "\<forall>g \<in> set gaps. 0 \<le> g"
    and "acquires rl gaps w = (entries, rl', w')"
  shows "(\<forall>i < length entries. fst (entries ! i) \<longrightarrow>
            int (length (filter (\<lambda>t. snd (entries ! i) - time_window rl < t)
                           (granted (take (Suc i) entries)))) \<le> max_requests rl)
       \<and> (int (length gaps) = max_requests rl \<and> 0 \<le> g
            \<and> sum_list (tl gaps) + g < time_window rl \<longrightarrow>
            (\<forall>e \<in> set entries. fst e) \<and> \<not> fst (acquire rl' (idle g w')))
       \<and> (1 \<le> max_requests rl \<and> clock w' + time_window rl \<le> clock w'' \<longrightarrow>
            fst (acquire rl' w''))"
proof (intro conjI allI impI)
  fix i assume "i < length entries" "fst (entries ! i)"
  with acquires_window [of "[]" "[]" rl w gaps entries rl' w' i] assms
  show "int (length (filter (\<lambda>t. snd (entries ! i) - time_window rl < t)
                       (granted (take (Suc i) entries)))) \<le> max_requests rl"
    by simp
next
  note b = acquires_basic [OF assms(2,3)]
  assume h: "int (length gaps) = max_requests rl \<and> 0 \<le> g
      \<and> sum_list (tl gaps) + g < time_window rl"
  with acquires_all_granted [OF assms(2) _ assms(3), of g] assms(1)
  have all: "\<forall>e \<in> set entries. fst e" and len: "length (requests rl') = length gaps"
    and ins: "\<forall>q \<in> set (requests rl'). clock w + sum_list gaps + g - time_window rl < q"
    by simp_all
  from all show "\<forall>e \<in> set entries. fst e" .
  have "clock (idle g w') = clock w + sum_list gaps + g"
    using b assms(1) by (simp add: idle_def)
  with ins b assms(1)
  have "\<forall>q \<in> set (requests rl'). clock (idle g w') - time_window rl' < q" by simp
  from acquire_inside_window [OF this] len h b assms(1)
  show "\<not> fst (acquire rl' (idle g w'))" by simp
next
  assume h: "1 \<le> max_requests rl \<and> clock w' + time_window rl \<le> clock w''"
  from acquires_basic [OF assms(2,3)] assms(1)
  have old: "\<forall>q \<in> set (requests rl'). q \<le> clock w'"
    and f: "max_requests rl' = max_requests rl" "time_window rl' = time_window rl"
    by auto
  have "\<forall>q \<in> set (requests rl'). q \<le> clock w'' - time_window rl'"
    using old h f by fastforce
  from remove_old_drops [OF this] h f show "fst (acquire rl' w'')"
    by (simp add: acquire_def Let_def)
qed

lemma two_grants_eval:
  "acquires two_per_ten [1, 3] world0 =
     ([(True, 1), (True, 4)],
      \<lparr>max_requests = 2, time_window = 10, requests = [1, 4]\<rparr>,
      \<lparr>clock = 4, invocations = 0, slept = []\<rparr>)"
  by (simp add: two_per_ten_def RateLimiter_init_def world0_def acquire_def idle_def Let_def)

theorem sliding_window_bound_witness:
  "requests two_per_ten = [] \<and> max_requests two_per_ten = 2 \<and> time_window two_per_ten = 10
   \<and> acquires two_per_ten [1, 3] world0 =
       ([(True, 1), (True, 4)],
        \<lparr>max_requests = 2, time_window = 10, requests = [1, 4]\<rparr>,
        \<lparr>clock = 4, invocations = 0, slept = []\<rparr>)
   \<and> int (length (filter (\<lambda>t. 4 - 10 < t) (granted [(True, 1), (True, 4 :: real)]))) \<le> 2
   \<and> \<not> fst (acquire \<lparr>max_requests = 2, time_window = 10, requests = [1, 4]\<rparr>
                (idle 5 \<lparr>clock = 4, invocations = 0, slept = []\<rparr>))
   \<and> fst (acquire \<lparr>max_requests = 2, time_window = 10, requests = [1, 4]\<rparr>
            \<lparr>clock = 14, invocations = 0, slept = []\<rparr>)"
proof -
  have h1: "requests two_per_ten = []" and f: "max_requests two_per_ten = 2"
    "time_window two_per_ten = 10"
    by (simp_all add: two_per_ten_def RateLimiter_init_def)
  have h2: "\<forall>g \<in> set [1, 3 :: real]. 0 \<le> g" by simp
  note t = sliding_window_bound [OF h1 h2 two_grants_eval,
      of 5 "\<lparr>clock = 14, invocations = 0, slept = []\<rparr>"]
  from t have a: "int (length (filter (\<lambda>t. 4 - 10 < t) (granted [(True, 1), (True, 4 :: real)]))) \<le> 2"
    unfolding f by (simp add: granted_def)
  from t have b: "\<not> fst (acquire \<lparr>max_requests = 2, time_window = 10, requests = [1, 4]\<rparr>
                (idle 5 \<lparr>clock = 4, invocations = 0, slept = []\<rparr>))"
    unfolding f by simp
  from t have c: "fst (acquire \<lparr>max_requests = 2, time_window = 10, requests = [1, 4]\<rparr>
            \<lparr>clock = 14, invocations = 0, slept = []\<rparr>)"
    unfolding f by simp
  from h1 f two_grants_eval a b c show ?thesis by blast
qed

section \<open>Resilience manager\<close>

text \<open>
  C4 as stated fails: the second \<^verbatim>\<open>create_circuit_breaker\<close> for a name constructs a
  second instance and binds the name to it. The instance the name had is not returned;
  two instances exist for one name.
\<close>

theorem create_twice_counterexample:
  "get_circuit_breaker (fst (snd once)) ''broker'' = Some (fst once)
   \<and> fst twice \<noteq> fst once
   \<and> get_circuit_breaker (fst (snd twice)) ''broker'' = Some (fst twice)
   \<and> get_circuit_breaker (fst (snd twice)) ''broker'' \<noteq> get_circuit_breaker (fst (snd once)) ''broker''
   \<and> allocated (snd (snd twice)) = 2"
  by (simp add: once_def twice_def create_circuit_breaker_def get_circuit_breaker_def
        ResilienceManager_init_def heap_init_def Let_def)

text \<open>
  C4, amended. In a manager whose registered references are all allocated, every call of
  \<^verbatim>\<open>create_circuit_breaker\<close>, \<^verbatim>\<open>create_rate_limiter\<close> or \<^verbatim>\<open>create_bulkhead\<close> that
  returns constructs exactly one new instance, initialised from the arguments, which is
  not the instance the name was bound to before; it binds the name to the new instance
  and leaves the other names alone. The matching \<^verbatim>\<open>get\<close> then returns the new
  instance.
\<close>

theorem create_registers_new_instance:
  assumes "\<forall>n r. get_circuit_breaker m n = Some r \<or> get_rate_limiter m n = Some r
              \<or> get_bulkhead m n = Some r \<longrightarrow> r < allocated h"
    and "create_circuit_breaker nm cfg (m, h) = (r1, m1, h1)"
    and "create_rate_limiter nm n tw (m, h) = (r2, m2, h2)"
    and "create_bulkhead nm k (m, h) = Inr (r3, m3, h3)"
  shows "get_circuit_breaker m nm \<noteq> Some r1 \<and> get_circuit_breaker m1 nm = Some r1
       \<and> breaker_at h1 r1 = CircuitBreaker_init nm cfg \<and> allocated h1 = Suc (allocated h)
       \<and> (\<forall>x. x \<noteq> nm \<longrightarrow> get_circuit_breaker m1 x = get_circuit_breaker m x)
       \<and> get_rate_limiter m nm \<noteq> Some r2 \<and> get_rate_limiter m2 nm = Some r2
       \<and> limiter_at h2 r2 = RateLimiter_init n tw \<and> allocated h2 = Suc (allocated h)
       \<and> (\<forall>x. x \<noteq> nm \<longrightarrow> get_rate_limiter m2 x = get_rate_limiter m x)
       \<and> get_bulkhead m nm \<noteq> Some r3 \<and> get_bulkhead m3 nm = Some r3
       \<and> Inr (bulkhead_at h3 r3) = Bulkhead_init nm k \<and> allocated h3 = Suc (allocated h)
       \<and> (\<forall>x. x \<noteq> nm \<longrightarrow> get_bulkhead m3 x = get_bulkhead m x)"
proof -
  have fresh: "get_circuit_breaker m nm \<noteq> Some (allocated h)"
    "get_rate_limiter m nm \<noteq> Some (allocated h)" "get_bulkhead m nm \<noteq> Some (allocated h)"
    using assms(1) by (metis less_irrefl)+
  have cb: "r1 = allocated h" "get_circuit_breaker m1 nm = Some r1"
    "breaker_at h1 r1 = CircuitBreaker_init nm cfg" "allocated h1 = Suc (allocated h)"
    "\<forall>x. x \<noteq> nm \<longrightarrow> get_circuit_breaker m1 x = get_circuit_breaker m x"
    using assms(2) by (auto simp: create_circuit_breaker_def get_circuit_breaker_def Let_def)
  have rl: "r2 = allocated h" "get_rate_limiter m2 nm = Some r2"
    "limiter_at h2 r2 = RateLimiter_init n tw" "allocated h2 = Suc (allocated h)"
    "\<forall>x. x \<noteq> nm \<longrightarrow> get_rate_limiter m2 x = get_rate_limiter m x"
    using assms(3) by (auto simp: create_rate_limiter_def get_rate_limiter_def Let_def)
  have bh: "r3 = allocated h" "get_bulkhead m3 nm = Some r3"
    "Inr (bulkhead_at h3 r3) = Bulkhead_init nm k" "allocated h3 = Suc (allocated h)"
    "\<forall>x. x \<noteq> nm \<longrightarrow> get_bulkhead m3 x = get_bulkhead m x"
    using assms(4)
    by (auto simp: create_bulkhead_def get_bulkhead_def Let_def split: sum.splits)
  from fresh cb rl bh show ?thesis by simp
qed

theorem create_registers_new_instance_witness:
  "get_circuit_breaker (fst (snd once)) ''broker'' = Some 0
   \<and> allocated (snd (snd once)) = 1
   \<and> fst twice = 1
   \<and> get_circuit_breaker (fst (snd twice)) ''broker'' = Some 1
   \<and> breaker_at (snd (snd twice)) 1 = fresh
   \<and> allocated (snd (snd twice)) = 2
   \<and> get_rate_limiter (fst (snd (create_rate_limiter ''broker'' 2 10 (snd once)))) ''broker''
       = Some 1
   \<and> map_sum id fst (create_bulkhead ''broker'' 5 (snd once)) = Inr 1"
proof -
  obtain m h where mh: "snd once = (m, h)" by (cases "snd once") auto
  have m: "m = ResilienceManager_init\<lparr>circuit_breakers := [''broker'' \<mapsto> 0]\<rparr>"
    and al: "allocated h = 1"
    using mh
    by (auto simp: once_def create_circuit_breaker_def ResilienceManager_init_def
          heap_init_def Let_def)
  have wf: "\<forall>n r. get_circuit_breaker m n = Some r \<or> get_rate_limiter m n = Some r
              \<or> get_bulkhead m n = Some r \<longrightarrow> r < allocated h"
    by (auto simp: m al get_circuit_breaker_def get_rate_limiter_def get_bulkhead_def
          ResilienceManager_init_def split: if_splits)
  obtain r1 m1 h1 where c1: "create_circuit_breaker ''broker'' scenario_config (m, h) = (r1, m1, h1)"
    by (cases "create_circuit_breaker ''broker'' scenario_config (m, h)") auto
  obtain r2 m2 h2 where c2: "create_rate_limiter ''broker'' 2 10 (m, h) = (r2, m2, h2)"
    by (cases "create_rate_limiter ''broker'' 2 10 (m, h)") auto
  obtain r3 m3 h3 where c3: "create_bulkhead ''broker'' 5 (m, h) = Inr (r3, m3, h3)"
    by (simp add: create_bulkhead_def Bulkhead_init_def Let_def)
  have r: "r1 = 1" "r2 = 1" "r3 = 1"
    using c1 c2 c3 al
    by (auto simp: create_circuit_breaker_def create_rate_limiter_def create_bulkhead_def
          Bulkhead_init_def Let_def)
  have tw: "twice = (r1, m1, h1)" using c1 mh by (simp add: twice_def)
  have first: "get_circuit_breaker m ''broker'' = Some 0"
    by (simp add: m get_circuit_breaker_def)
  show ?thesis
    using create_registers_new_instance [OF wf c1 c2 c3] first al
    by (simp add: mh tw c2 c3 r fresh_def)
qed

text \<open>
  Whenever a breaker is registered under the name, the call of the breaker is all that
  \<^verbatim>\<open>_execute_with_circuit_breaker_and_retry\<close> does: neither the retry configuration nor
  the timeout has a say.
\<close>

lemma breaker_call_is_not_retried:
  assumes "registered (get_circuit_breaker m) nm = Some r"
    and "call (breaker_at h r) f w = (res, cb, w')"
  shows "execute_with_circuit_breaker_and_retry m f nm tmo retry_cfg rnd (h, w)
           = (res, h\<lparr>breaker_at := (breaker_at h)(r := cb)\<rparr>, w')"
  by (simp add: execute_with_circuit_breaker_and_retry_def assms)

text \<open>
  C1 fails on the code. With a breaker registered under the name and a retry
  configuration of three attempts, \<^verbatim>\<open>execute_with_resilience\<close> makes one call of the
  breaker and returns its \<^verbatim>\<open>CircuitBreakerException\<close>: the operation is invoked once and
  nothing sleeps, although its second invocation would succeed. Without the breaker name
  the same request is retried and returns 42 after two invocations and one sleep.
\<close>

theorem retry_skipped_behind_breaker:
  "map_option fst
     (execute_with_resilience (fst (snd once)) flaky (Some ''broker'') None None None
        (Some three_attempts) (\<lambda>a. (0, 1/2)) (snd (snd once), world0))
     = Some (Inl (Exn CircuitBreakerException
                    [Str ''Circuit breaker '', Str ''broker'', Str '' failure: '',
                     Str ''reset'']))
   \<and> map_option (snd \<circ> snd)
       (execute_with_resilience (fst (snd once)) flaky (Some ''broker'') None None None
          (Some three_attempts) (\<lambda>a. (0, 1/2)) (snd (snd once), world0))
     = Some \<lparr>clock = 1, invocations = 1, slept = []\<rparr>
   \<and> map_option fst
       (execute_with_resilience (fst (snd once)) flaky None None None None
          (Some three_attempts) (\<lambda>a. (0, 1/2)) (snd (snd once), world0))
     = Some (Inr 42)
   \<and> map_option (snd \<circ> snd)
       (execute_with_resilience (fst (snd once)) flaky None None None None
          (Some three_attempts) (\<lambda>a. (0, 1/2)) (snd (snd once), world0))
     = Some \<lparr>clock = 3, invocations = 2, slept = [1]\<rparr>"
proof -
  have reg: "registered (get_circuit_breaker (fst (snd once))) (Some ''broker'') = Some 0"
    "breaker_at (snd (snd once)) 0 = fresh"
    by (simp_all add: once_def create_circuit_breaker_def ResilienceManager_init_def
          heap_init_def registered_def get_circuit_breaker_def fresh_def Let_def)
  have c: "call fresh flaky world0 =
      (Inl (Exn CircuitBreakerException
              [Str ''Circuit breaker '', Str ''broker'', Str '' failure: '', Str ''reset'']),
       record_failure fresh \<lparr>clock = 1, invocations = 1, slept = []\<rparr>,
       \<lparr>clock = 1, invocations = 1, slept = []\<rparr>)"
    by (simp add: call_def check_open_def execute_function_def invoke_def flaky_def
          world0_def fresh_def CircuitBreaker_init_def isinstance_def issubclass_def)
  have with_breaker:
    "execute_with_circuit_breaker_and_retry (fst (snd once)) flaky (Some ''broker'') None
       (Some three_attempts) (\<lambda>a. (0, 1/2)) (snd (snd once), world0)
     = (Inl (Exn CircuitBreakerException
               [Str ''Circuit breaker '', Str ''broker'', Str '' failure: '', Str ''reset'']),
        (snd (snd once))\<lparr>breaker_at := (breaker_at (snd (snd once)))
           (0 := record_failure fresh \<lparr>clock = 1, invocations = 1, slept = []\<rparr>)\<rparr>,
        \<lparr>clock = 1, invocations = 1, slept = []\<rparr>)"
    using c by (intro breaker_call_is_not_retried [OF reg(1)]) (simp add: reg(2))
  have t1: "execute_with_timeout 30 flaky None world0
      = (Inl (Exn (AppError ''BrokerUnavailable'') [Str ''reset'']),
         \<lparr>clock = 1, invocations = 1, slept = []\<rparr>)"
    by (simp add: execute_with_timeout_def invoke_def flaky_def world0_def
          isinstance_def issubclass_def)
  have t2: "execute_with_timeout 30 flaky None \<lparr>clock = 2, invocations = 1, slept = [1]\<rparr>
      = (Inr 42, \<lparr>clock = 3, invocations = 2, slept = [1]\<rparr>)"
    by (simp add: execute_with_timeout_def invoke_def flaky_def)
  have d: "calculate_delay three_attempts (0, 1/2) 1 = Inr 1"
    using float_max_small(1) float_max_bounds(1)
    by (simp add: calculate_delay_def strategy_delay_def float_pow_def float_of_int_def
          three_attempts_def uniform_def)
  have retry: "execute_with_retry three_attempts (Inr ''execute_with_timeout'')
       (execute_with_timeout 30 flaky None) None (\<lambda>a. (0, 1/2)) world0
     = (Inr 42, \<lparr>clock = 3, invocations = 2, slept = [1]\<rparr>)"
  proof -
    have m: "(1::int) < max_attempts three_attempts" "(1::int) + 1 \<le> max_attempts three_attempts"
      by (simp_all add: three_attempts_def)
    have caught: "catches [Exception] (Exn (AppError ''BrokerUnavailable'') [Str ''reset''])"
      by (simp add: catches_def isinstance_def issubclass_def)
    have s: "sleep 1 \<lparr>clock = 1, invocations = 1, slept = []\<rparr>
        = \<lparr>clock = 2, invocations = 1, slept = [1]\<rparr>"
      by (simp add: sleep_def)
    have "retry_loop three_attempts [Exception] (Inr ''execute_with_timeout'')
          (execute_with_timeout 30 flaky None) (\<lambda>a. (0, 1/2)) 1 None world0
        = retry_loop three_attempts [Exception] (Inr ''execute_with_timeout'')
            (execute_with_timeout 30 flaky None) (\<lambda>a. (0, 1/2)) (1 + 1)
            (Some (Exn (AppError ''BrokerUnavailable'') [Str ''reset'']))
            (sleep 1 \<lparr>clock = 1, invocations = 1, slept = []\<rparr>)"
      by (rule retry_loop_retries [where run = "execute_with_timeout 30 flaky None"
            and w = world0, OF m(1) t1 caught d])
    also have "\<dots> = (Inr 42, \<lparr>clock = 3, invocations = 2, slept = [1]\<rparr>)"
      unfolding s
      by (rule retry_loop_returns [where run = "execute_with_timeout 30 flaky None"
            and w = "\<lparr>clock = 2, invocations = 1, slept = [1]\<rparr>", OF m(2) t2])
    finally show ?thesis
      unfolding execute_with_retry_def Let_def by simp
  qed
  have without_breaker:
    "execute_with_circuit_breaker_and_retry (fst (snd once)) flaky None None
       (Some three_attempts) (\<lambda>a. (0, 1/2)) (snd (snd once), world0)
     = (Inr 42, snd (snd once), \<lparr>clock = 3, invocations = 2, slept = [1]\<rparr>)"
    using retry
    by (simp add: execute_with_circuit_breaker_and_retry_def registered_def once_def
          create_circuit_breaker_def ResilienceManager_init_def Let_def)
  show ?thesis
    by (simp add: execute_with_resilience_def registered_def with_breaker without_breaker)
qed

end
